theory Spec2Isabelle
  imports Complex_Main
begin

section \<open>Strings\<close>

text \<open>
  A Python \<open>str\<close> is modelled as a \<open>string\<close>, read as the sequence of its code points;
  the model covers the code points below 256. \<open>isspace\<close> is the set of those code points
  that \<open>str.strip()\<close> removes: tab, line feed, vertical tab, form feed, carriage return,
  the four separators 28..31, the space, NEL (133) and the no-break space (160).
\<close>

definition isspace :: "char \<Rightarrow> bool" where
  "isspace c = (of_char c \<in> {9, 10, 11, 12, 13, 28, 29, 30, 31, 32, 133, 160 :: nat})"

definition lstrip :: "string \<Rightarrow> string" where
  "lstrip s = dropWhile isspace s"

definition rstrip :: "string \<Rightarrow> string" where
  "rstrip s = rev (dropWhile isspace (rev s))"

definition strip :: "string \<Rightarrow> string" where
  "strip s = rstrip (lstrip s)"

section \<open>The document and the extractor\<close>

text \<open>
  The document parser hands over slides, each with its shapes; a shape either exposes a
  \<open>text\<close> attribute (\<open>hasattr(shape, "text")\<close>) or does not.
\<close>

datatype shape = WithText string | NoText

record slide =
  shapes :: "shape list"

record presentation =
  slides :: "slide list"

text \<open>The loop of \<open>extract_text_from_slide\<close>: \<open>text += shape.text + " "\<close> for every
  shape with a text attribute.\<close>

fun shapes_loop :: "shape list \<Rightarrow> string \<Rightarrow> string" where
  "shapes_loop [] text = text"
| "shapes_loop (WithText t # rest) text = shapes_loop rest (text @ t @ '' '')"
| "shapes_loop (NoText # rest) text = shapes_loop rest text"

definition extract_text_from_slide :: "slide \<Rightarrow> string" where
  "extract_text_from_slide sl = strip (shapes_loop (shapes sl) [])"

text \<open>The comprehension of \<open>process_presentation\<close>; a string is truthy when it is not
  empty.\<close>

definition all_texts :: "presentation \<Rightarrow> string list" where
  "all_texts ppt =
     [extract_text_from_slide sl. sl \<leftarrow> slides ppt, extract_text_from_slide sl \<noteq> []]"

section \<open>The remote collaborator, effects and the world\<close>

text \<open>
  The request of \<open>client.chat.completions.create\<close>: model identifier, the ordered
  messages, the bound on the response length and the sampling temperature (0.5).
\<close>

record message =
  role :: string
  content :: string

record request =
  model :: string
  messages :: "message list"
  max_tokens :: nat
  temperature :: rat

text \<open>
  What a raised exception is to the \<open>except\<close> clauses of \<open>get_explanation\<close>, with
  \<open>str(e)\<close> as its argument. The clauses are tried in the order of the source, so
  \<open>APIError\<close> stands for an \<open>APIError\<close> that is neither a \<open>RateLimitError\<close> nor an
  \<open>APIConnectionError\<close>, \<open>OtherException\<close> for an \<open>Exception\<close> that is no \<open>APIError\<close>,
  and \<open>BaseExceptionOnly\<close> for a \<open>BaseException\<close> that is no \<open>Exception\<close>
  (\<open>KeyboardInterrupt\<close>, a cancellation), which no clause catches.
\<close>

datatype exn =
    RateLimitError string
  | APIConnectionError string
  | APIError string
  | OtherException string
  | BaseExceptionOnly string

datatype level = INFO | WARNING | ERROR

text \<open>The function whose body calls \<open>asyncio.sleep\<close>.\<close>

datatype caller = In_get_explanation | In_process_presentation

text \<open>What a run does to the outside, in order: requests to the remote service, sleeps
  (seconds), log records and file writes (path, content).\<close>

datatype event =
    Request request
  | Sleep caller nat
  | Log level string
  | Write string string

text \<open>
  The world a run acts on: the state of the remote collaborator, the trace of effects so
  far, and the files written (path to content).
\<close>

record 'c world =
  cstate :: 'c
  trace :: "event list"
  files :: "string \<rightharpoonup> string"

text \<open>
  The message of the first choice of a response, \<open>response.choices[0].message\<close>, with
  its content. The source reads the content by subscript, \<open>message['content']\<close>. A
  \<open>Subscriptable\<close> message supports that (a dictionary, as a stub of the collaborator may
  hand over). An \<open>AttributeOnly\<close> message carries the content as the attribute
  \<open>content\<close> and has no subscript: so are the response objects of the client library whose
  \<open>AsyncOpenAI\<close> the source imports, and the subscript raises \<open>TypeError\<close> there.
\<close>

datatype message_obj = Subscriptable string | AttributeOnly string

text \<open>
  The remote collaborator: from its state and a request, either the exception that
  \<open>create\<close> raises or the message of the response, and its next state.
\<close>

type_synonym 'c client = "'c \<Rightarrow> request \<Rightarrow> (exn + message_obj) \<times> 'c"

definition create :: "'c client \<Rightarrow> request \<Rightarrow> 'c world \<Rightarrow> (exn + message_obj) \<times> 'c world" where
  "create cl rq w =
     (case cl (cstate w) rq of
        (r, c') \<Rightarrow> (r, w\<lparr>cstate := c', trace := trace w @ [Request rq]\<rparr>))"

text \<open>\<open>message['content']\<close>: the content, or the \<open>TypeError\<close> of a message without
  subscript.\<close>

definition not_subscriptable :: string where
  "not_subscriptable =
     CHR 0x27 # ''ChatCompletionMessage'' @ CHR 0x27 # '' object is not subscriptable''"

definition content_of :: "message_obj \<Rightarrow> exn + string" where
  "content_of msg =
     (case msg of
        Subscriptable c \<Rightarrow> Inr c
      | AttributeOnly c \<Rightarrow> Inl (OtherException not_subscriptable))"

text \<open>The \<open>try\<close> block up to the value of \<open>response.choices[0].message['content']\<close>:
  the request, then the subscript.\<close>

definition request_content :: "'c client \<Rightarrow> request \<Rightarrow> 'c world \<Rightarrow> (exn + string) \<times> 'c world" where
  "request_content cl rq w =
     (case create cl rq w of
        (Inl e, w') \<Rightarrow> (Inl e, w')
      | (Inr msg, w') \<Rightarrow> (content_of msg, w'))"

definition sleep :: "caller \<Rightarrow> nat \<Rightarrow> 'c world \<Rightarrow> 'c world" where
  "sleep who secs w = w\<lparr>trace := trace w @ [Sleep who secs]\<rparr>"

definition logging :: "level \<Rightarrow> string \<Rightarrow> 'c world \<Rightarrow> 'c world" where
  "logging lv msg w = w\<lparr>trace := trace w @ [Log lv msg]\<rparr>"

definition write_file :: "string \<Rightarrow> string \<Rightarrow> 'c world \<Rightarrow> 'c world" where
  "write_file path text w =
     w\<lparr>trace := trace w @ [Write path text], files := (files w)(path \<mapsto> text)\<rparr>"

text \<open>Decimal rendering of a number inside an f-string.\<close>

definition digit_char :: "nat \<Rightarrow> char" where
  "digit_char d = char_of (48 + d)"

fun str_nat :: "nat \<Rightarrow> string" where
  "str_nat n = (if n < 10 then [digit_char n] else str_nat (n div 10) @ [digit_char (n mod 10)])"

declare str_nat.simps [simp del]

section \<open>The explanation requester\<close>

definition request_for :: "string \<Rightarrow> request" where
  "request_for text =
     \<lparr>model = ''gpt-3.5-turbo'',
      messages =
        [\<lparr>role = ''system'', content = ''You are a helpful assistant.''\<rparr>,
         \<lparr>role = ''user'',
          content = ''Explain the following presentation slide content succinctly:''
                    @ [CHR 0x0A, CHR 0x0A] @ text\<rparr>],
      max_tokens = 1500,
      temperature = 1 / 2\<rparr>"

text \<open>
  One pass through the body of the \<open>for attempt in range(retries)\<close> loop, after the
  request has come back: either the function returns (a value, or the exception that
  escapes it), or the loop goes on with the next attempt. \<open>delay\<close> is the local variable
  of the source.
\<close>

datatype 'c step =
    Return "exn + string" nat "'c world"
  | Continue nat "'c world"

fun attempt_body :: "nat \<Rightarrow> (exn + string) \<times> 'c world \<Rightarrow> 'c step" where
  "attempt_body delay (Inr answer, w) =
     Return (Inr (strip answer)) delay
       (logging INFO (''Received explanation: '' @ take 60 (strip answer) @ ''...'') w)"
| "attempt_body delay (Inl (RateLimitError m), w) =
     Continue delay
       (sleep In_get_explanation 60
         (logging WARNING ''Rate limit exceeded. Waiting for 1 minute before retrying...'' w))"
| "attempt_body delay (Inl (APIConnectionError m), w) =
     Continue (min (delay * 2) 60)
       (sleep In_get_explanation delay
         (logging ERROR (''Failed to connect to OpenAI API: '' @ m @ ''. Retrying in ''
                     @ str_nat delay @ '' seconds...'') w))"
| "attempt_body delay (Inl (APIError m), w) =
     Continue (min (delay * 2) 60)
       (sleep In_get_explanation delay
         (logging ERROR (''OpenAI API returned an error: '' @ m @ ''. Retrying in ''
                     @ str_nat delay @ '' seconds...'') w))"
| "attempt_body delay (Inl (OtherException m), w) =
     Return (Inr (''Error processing slide: '' @ m)) delay
       (logging ERROR (''Error processing slide: '' @ m) w)"
| "attempt_body delay (Inl (BaseExceptionOnly m), w) =
     Return (Inl (BaseExceptionOnly m)) delay w"

text \<open>The loop itself, on the number of attempts left; it also hands back the last value
  of \<open>delay\<close>.\<close>

fun attempts :: "'c client \<Rightarrow> string \<Rightarrow> nat \<Rightarrow> nat \<Rightarrow> 'c world \<Rightarrow> (exn + string) \<times> nat \<times> 'c world" where
  "attempts cl text 0 delay w =
     (Inr ''Failed to get explanation after several retries due to rate limits.'', delay, w)"
| "attempts cl text (Suc n) delay w =
     (case attempt_body delay (request_content cl (request_for text) w) of
        Return r d w' \<Rightarrow> (r, d, w')
      | Continue d w' \<Rightarrow> attempts cl text n d w')"

definition get_explanation :: "'c client \<Rightarrow> string \<Rightarrow> nat \<Rightarrow> 'c world \<Rightarrow> (exn + string) \<times> 'c world" where
  "get_explanation cl text retries w =
     (case attempts cl text retries 1 w of (r, d, w') \<Rightarrow> (r, w'))"

section \<open>The run orchestrator\<close>

text \<open>
  The loop \<open>for i, text in enumerate(all_texts)\<close>: \<open>i\<close> is the index, \<open>len_texts\<close> is
  \<open>len(all_texts)\<close>. An exception that escapes \<open>get_explanation\<close> ends the run.
\<close>

fun slides_loop :: "'c client \<Rightarrow> nat \<Rightarrow> nat \<Rightarrow> string list \<Rightarrow> string list \<Rightarrow> 'c world
    \<Rightarrow> (exn + string list) \<times> 'c world" where
  "slides_loop cl len_texts i [] explanations w = (Inr explanations, w)"
| "slides_loop cl len_texts i (text # rest) explanations w =
     (if text \<noteq> [] then
        (case get_explanation cl text 5
                (logging INFO (''Submitting slide '' @ str_nat (i + 1) @ ''/'' @ str_nat len_texts
                           @ '' for explanation...'') w) of
           (Inl e, w1) \<Rightarrow> (Inl e, w1)
         | (Inr explanation, w1) \<Rightarrow>
             slides_loop cl len_texts (i + 1) rest (explanations @ [explanation])
               (if (i + 1) mod 3 = 0 then
                  sleep In_process_presentation 60
                    (logging INFO ''Processed 3 slides. Waiting for 1 minute to comply with rate limits...'' w1)
                else sleep In_process_presentation 20 w1))
      else slides_loop cl len_texts (i + 1) rest explanations w)"

text \<open>\<open>Presentation(file_path)\<close> is the document parser: it raises or hands over the
  document.\<close>

type_synonym loader = "string \<Rightarrow> exn + presentation"

definition process_presentation :: "loader \<Rightarrow> 'c client \<Rightarrow> string \<Rightarrow> 'c world
    \<Rightarrow> (exn + string list) \<times> 'c world" where
  "process_presentation load cl file_path w =
     (let w0 = logging INFO (''Processing presentation: '' @ file_path) w in
      case load file_path of
        Inl e \<Rightarrow> (Inl e, w0)
      | Inr ppt \<Rightarrow> slides_loop cl (length (all_texts ppt)) 0 (all_texts ppt) [] w0)"

section \<open>Reading a trace\<close>

fun sleeps_of :: "caller \<Rightarrow> event list \<Rightarrow> nat list" where
  "sleeps_of who [] = []"
| "sleeps_of who (Sleep c d # es) = (if c = who then d # sleeps_of who es else sleeps_of who es)"
| "sleeps_of who (_ # es) = sleeps_of who es"

fun requests_of :: "event list \<Rightarrow> request list" where
  "requests_of [] = []"
| "requests_of (Request rq # es) = rq # requests_of es"
| "requests_of (_ # es) = requests_of es"

fun writes_of :: "event list \<Rightarrow> (string \<times> string) list" where
  "writes_of [] = []"
| "writes_of (Write p t # es) = (p, t) # writes_of es"
| "writes_of (_ # es) = writes_of es"

text \<open>The effects of a trace without its log records.\<close>

fun effects :: "event list \<Rightarrow> event list" where
  "effects [] = []"
| "effects (Log lv msg # es) = effects es"
| "effects (e # es) = e # effects es"

text \<open>The delays of \<open>n\<close> failures in a row, from the delay \<open>d\<close> on: each is twice the one
  before, up to 60.\<close>

fun backoff :: "nat \<Rightarrow> nat \<Rightarrow> nat list" where
  "backoff d 0 = []"
| "backoff d (Suc n) = d # backoff (min (d * 2) 60) n"

text \<open>The requests and the pauses of the orchestrator in a trace, in order.\<close>

fun requests_and_pauses :: "event list \<Rightarrow> event list" where
  "requests_and_pauses [] = []"
| "requests_and_pauses (Request rq # es) = Request rq # requests_and_pauses es"
| "requests_and_pauses (Sleep In_process_presentation d # es) =
     Sleep In_process_presentation d # requests_and_pauses es"
| "requests_and_pauses (e # es) = requests_and_pauses es"

text \<open>A collaborator all of whose exceptions are instances of \<open>Exception\<close>.\<close>

definition raises_exceptions_only :: "'c client \<Rightarrow> bool" where
  "raises_exceptions_only cl = (\<forall>c rq m. fst (cl c rq) \<noteq> Inl (BaseExceptionOnly m))"

text \<open>A collaborator that answers every call with a message that has a subscript.\<close>

definition answers_every_call :: "'c client \<Rightarrow> bool" where
  "answers_every_call cl = (\<forall>c rq. \<exists>ans. fst (cl c rq) = Inr (Subscriptable ans))"

text \<open>
  The strings that one call of the collaborator makes \<open>get_explanation\<close> return for a
  text: the trimmed content of an answer, or the fallback with the description of the
  exception that the call or the subscript raised.
\<close>

definition returned_for :: "'c client \<Rightarrow> string \<Rightarrow> string \<Rightarrow> bool" where
  "returned_for cl text s =
     (\<exists>c. (\<exists>ans. fst (cl c (request_for text)) = Inr (Subscriptable ans) \<and> s = strip ans)
        \<or> (\<exists>ans. fst (cl c (request_for text)) = Inr (AttributeOnly ans)
                  \<and> s = ''Error processing slide: '' @ not_subscriptable)
        \<or> (\<exists>m. fst (cl c (request_for text)) = Inl (OtherException m)
                \<and> s = ''Error processing slide: '' @ m))"

text \<open>The pause of the orchestrator after the slide with index \<open>i\<close> (counted from 0).\<close>

definition pause_after :: "nat \<Rightarrow> nat" where
  "pause_after i = (if (i + 1) mod 3 = 0 then 60 else 20)"

section \<open>Saving the result\<close>

text \<open>
  \<open>os.path.splitext\<close> on a POSIX path: the extension starts at the last dot of the last
  path component, unless that component has only dots before it. \<open>rfind\<close> is
  \<open>str.rfind\<close> (\<open>-1\<close> when the character is absent); \<open>leading_dots_loop\<close> is the
  \<open>while filenameIndex < dotIndex\<close> loop, true when it finds a character other than a
  dot.
\<close>

definition rfind :: "char \<Rightarrow> string \<Rightarrow> int" where
  "rfind c p =
     (let k = length (takeWhile (\<lambda>x. x \<noteq> c) (rev p))
      in if k = length p then - 1 else int (length p) - 1 - int k)"

function leading_dots_loop :: "string \<Rightarrow> int \<Rightarrow> int \<Rightarrow> bool" where
  "leading_dots_loop p filenameIndex dotIndex =
     (if filenameIndex < dotIndex then
        (if p ! nat filenameIndex \<noteq> CHR ''.'' then True
         else leading_dots_loop p (filenameIndex + 1) dotIndex)
      else False)"
  by pat_completeness auto
termination
  by (relation "measure (\<lambda>(p, f, d). nat (d - f))") auto

declare leading_dots_loop.simps [simp del]

definition splitext :: "string \<Rightarrow> string \<times> string" where
  "splitext p =
     (let sepIndex = rfind CHR ''/'' p; dotIndex = rfind CHR ''.'' p
      in if dotIndex > sepIndex \<and> leading_dots_loop p (sepIndex + 1) dotIndex
         then (take (nat dotIndex) p, drop (nat dotIndex) p)
         else (p, []))"

text \<open>
  \<open>json.dump(explanations, f, indent=4)\<close> on a list of strings, with the defaults of the
  standard library (\<open>ensure_ascii\<close>): inside a string the quote, the backslash and every
  character outside the printable ASCII range are escaped; the items stand one per line
  behind four spaces, separated by commas; the empty list is \<open>[]\<close>.
\<close>

definition hex_digit :: "nat \<Rightarrow> char" where
  "hex_digit n = ''0123456789abcdef'' ! n"

definition escape_char :: "char \<Rightarrow> string" where
  "escape_char c =
     (if c = CHR 0x22 then [CHR 0x5C, CHR 0x22]
      else if c = CHR 0x5C then [CHR 0x5C, CHR 0x5C]
      else if c = CHR 0x0A then [CHR 0x5C, CHR ''n'']
      else if c = CHR 0x0D then [CHR 0x5C, CHR ''r'']
      else if c = CHR 0x09 then [CHR 0x5C, CHR ''t'']
      else if c = CHR 0x08 then [CHR 0x5C, CHR ''b'']
      else if c = CHR 0x0C then [CHR 0x5C, CHR ''f'']
      else if 32 \<le> (of_char c :: nat) \<and> (of_char c :: nat) \<le> 126 then [c]
      else [CHR 0x5C, CHR ''u'', CHR ''0'', CHR ''0'',
            hex_digit (of_char c div 16), hex_digit (of_char c mod 16)])"

definition json_string :: "string \<Rightarrow> string" where
  "json_string s = [CHR 0x22] @ concat (map escape_char s) @ [CHR 0x22]"

definition newline_indent :: string where
  "newline_indent = CHR 0x0A # ''    ''"

fun items_loop :: "bool \<Rightarrow> string list \<Rightarrow> string" where
  "items_loop first [] = []"
| "items_loop first (x # xs) =
     (if first then ''['' @ newline_indent else '','' @ newline_indent)
     @ json_string x @ items_loop False xs"

definition json_dump :: "string list \<Rightarrow> string" where
  "json_dump xs = (if xs = [] then ''[]'' else items_loop True xs @ [CHR 0x0A] @ '']'')"

text \<open>\<open>open(output_file, 'w')\<close> truncates the file if it exists.\<close>

definition output_file :: "string \<Rightarrow> string" where
  "output_file file_path = fst (splitext file_path) @ ''.json''"

definition save_explanations :: "string \<Rightarrow> string list \<Rightarrow> 'c world \<Rightarrow> 'c world" where
  "save_explanations file_path explanations w =
     write_file (output_file file_path) (json_dump explanations)
       (logging INFO (''Saving explanations to '' @ output_file file_path) w)"

section \<open>The command line\<close>

text \<open>
  \<open>main\<close> after \<open>parse_args\<close> has handed over \<open>args.file_path\<close>; an exception that
  escapes \<open>process_presentation\<close> escapes \<open>main\<close> too.
\<close>

definition main :: "loader \<Rightarrow> 'c client \<Rightarrow> string \<Rightarrow> 'c world \<Rightarrow> (exn + unit) \<times> 'c world" where
  "main load cl file_path w =
     (case process_presentation load cl file_path w of
        (Inl e, w1) \<Rightarrow> (Inl e, w1)
      | (Inr explanations, w1) \<Rightarrow>
          (Inr (),
           logging INFO (''Explanations saved to '' @ fst (splitext file_path) @ ''.json'')
             (save_explanations file_path explanations w1)))"

text \<open>
  How the process ends: with an exit status, or with an exception nobody caught. The
  module reads the credential when it is loaded, and builds the client from it.
\<close>

datatype status = Exit nat | Uncaught exn

definition script :: "(string \<rightharpoonup> string) \<Rightarrow> loader \<Rightarrow> (string \<Rightarrow> 'c client) \<Rightarrow> string
    \<Rightarrow> 'c world \<Rightarrow> status \<times> 'c world" where
  "script env load mk_client file_path w =
     (case env ''OPENAI_API_KEY'' of
        None \<Rightarrow>
          (Exit 1,
           logging ERROR ''OPENAI_API_KEY is not set. Please set it in your environment variables.'' w)
      | Some key \<Rightarrow>
          (case main load (mk_client key) file_path w of
             (Inl e, w') \<Rightarrow> (Uncaught e, w')
           | (Inr u, w') \<Rightarrow> (Exit 0, w')))"

section \<open>Scenarios\<close>

text \<open>
  Simulated collaborators, whose state counts the calls they have received, a document of
  four slides with text, and the world before a run.
\<close>

definition always_succeeds :: "nat client" where
  "always_succeeds c rq = (Inr (Subscriptable '' A slide about lists. ''), c + 1)"

definition always_connection_error :: "nat client" where
  "always_connection_error c rq = (Inl (APIConnectionError ''Connection error.''), c + 1)"

definition rate_limited_twice :: "nat client" where
  "rate_limited_twice c rq =
     (if c < 2 then Inl (RateLimitError ''Rate limit reached'')
      else Inr (Subscriptable '' A slide about lists. ''),
      c + 1)"

definition rate_limited_twice_library :: "nat client" where
  "rate_limited_twice_library c rq =
     (if c < 2 then Inl (RateLimitError ''Rate limit reached'')
      else Inr (AttributeOnly '' A slide about lists. ''),
      c + 1)"

definition raises_value_error :: "nat client" where
  "raises_value_error c rq = (Inl (OtherException ''bad value''), c + 1)"

definition four_slides :: presentation where
  "four_slides =
     \<lparr>slides =
        [\<lparr>shapes = [WithText ''Title'', NoText]\<rparr>,
         \<lparr>shapes = [WithText ''Lists'', WithText ''and maps'']\<rparr>,
         \<lparr>shapes = [WithText '' Sets '']\<rparr>,
         \<lparr>shapes = [NoText, WithText ''Thanks'']\<rparr>]\<rparr>"

definition blank_slides :: presentation where
  "blank_slides = \<lparr>slides = [\<lparr>shapes = [NoText]\<rparr>, \<lparr>shapes = [WithText ''  '']\<rparr>, \<lparr>shapes = []\<rparr>]\<rparr>"

definition load_four :: loader where
  "load_four file_path = Inr four_slides"

definition load_blank :: loader where
  "load_blank file_path = Inr blank_slides"

definition make_client :: "string \<Rightarrow> nat client" where
  "make_client key = always_succeeds"

definition env_without_key :: "string \<rightharpoonup> string" where
  "env_without_key = Map.empty"

definition env_with_key :: "string \<rightharpoonup> string" where
  "env_with_key = [''OPENAI_API_KEY'' \<mapsto> ''sk-test'']"

definition world0 :: "nat world" where
  "world0 = \<lparr>cstate = 0, trace = [], files = Map.empty\<rparr>"

section \<open>The specification's wording\<close>

text \<open>
  The slide text as the specification words it: the texts of the shapes that expose text,
  concatenated, then trimmed.
\<close>

definition spec_slide_text :: "slide \<Rightarrow> string" where
  "spec_slide_text sl = strip (concat [t. WithText t \<leftarrow> shapes sl])"

text \<open>
  The retry policy as the specification words it, on the outcomes of the calls in order:
  an outcome is retried when it is a rate-limit, connection or other API error; the
  first outcome that is not retried decides the result; when the whole budget is
  retried, the result is the fixed fallback.
\<close>

fun call_results :: "'c client \<Rightarrow> 'c \<Rightarrow> request \<Rightarrow> nat \<Rightarrow> (exn + message_obj) list" where
  "call_results cl c rq 0 = []"
| "call_results cl c rq (Suc n) = fst (cl c rq) # call_results cl (snd (cl c rq)) rq n"

fun retried :: "exn + message_obj \<Rightarrow> bool" where
  "retried (Inl (RateLimitError m)) = True"
| "retried (Inl (APIConnectionError m)) = True"
| "retried (Inl (APIError m)) = True"
| "retried r = False"

fun decided_by :: "exn + message_obj \<Rightarrow> exn + string" where
  "decided_by (Inr (Subscriptable ans)) = Inr (strip ans)"
| "decided_by (Inr (AttributeOnly ans)) = Inr (''Error processing slide: '' @ not_subscriptable)"
| "decided_by (Inl (OtherException m)) = Inr (''Error processing slide: '' @ m)"
| "decided_by (Inl e) = Inl e"

definition spec_explain :: "(exn + message_obj) list \<Rightarrow> exn + string" where
  "spec_explain rs =
     (case dropWhile retried rs of
        [] \<Rightarrow> Inr ''Failed to get explanation after several retries due to rate limits.''
      | r # rest \<Rightarrow> decided_by r)"

text \<open>The pacing as the specification words it: a pause after every slide but the last.\<close>

definition spec_pacing :: "nat \<Rightarrow> nat list" where
  "spec_pacing n = map pause_after [0..<n - 1]"

text \<open>The slides that reach the requester, and the world in which the request for the
  slide with index \<open>k\<close> is made: the one the loop has reached after the slides before it,
  with the record that announces the slide.\<close>

definition nonempty_slides :: "presentation \<Rightarrow> slide list" where
  "nonempty_slides ppt = [sl \<leftarrow> slides ppt. extract_text_from_slide sl \<noteq> []]"

definition world_before_slide :: "'c client \<Rightarrow> presentation \<Rightarrow> 'c world \<Rightarrow> nat \<Rightarrow> 'c world" where
  "world_before_slide cl ppt w0 k =
     logging INFO (''Submitting slide '' @ str_nat (k + 1) @ ''/''
                   @ str_nat (length (all_texts ppt)) @ '' for explanation...'')
       (snd (slides_loop cl (length (all_texts ppt)) 0 (take k (all_texts ppt)) [] w0))"

section \<open>Lemmas on traces and on the retry loop\<close>

lemma sleeps_of_append: "sleeps_of who (xs @ ys) = sleeps_of who xs @ sleeps_of who ys"
  by (induction who xs rule: sleeps_of.induct) auto

lemma requests_of_append: "requests_of (xs @ ys) = requests_of xs @ requests_of ys"
  by (induction xs rule: requests_of.induct) auto

lemma writes_of_append: "writes_of (xs @ ys) = writes_of xs @ writes_of ys"
  by (induction xs rule: writes_of.induct) auto

lemma request_content_world:
  "request_content cl rq w
     = (case fst (cl (cstate w) rq) of Inl e \<Rightarrow> Inl e | Inr msg \<Rightarrow> content_of msg,
        w\<lparr>cstate := snd (cl (cstate w) rq), trace := trace w @ [Request rq]\<rparr>)"
  by (simp add: request_content_def create_def split: prod.splits sum.splits)

lemma content_of_catchable: "content_of msg \<noteq> Inl (BaseExceptionOnly m)"
  by (simp add: content_of_def split: message_obj.splits)

lemma create_catchable:
  "raises_exceptions_only cl \<Longrightarrow> fst (request_content cl rq w) \<noteq> Inl (BaseExceptionOnly m)"
  by (auto simp: raises_exceptions_only_def request_content_world content_of_catchable
      split: sum.splits)

lemma attempt_body_returns:
  "\<forall>m. r0 \<noteq> Inl (BaseExceptionOnly m) \<Longrightarrow> attempt_body d (r0, w) = Return r d' w' \<Longrightarrow> \<exists>s. r = Inr s"
  by (cases "(d, (r0, w))" rule: attempt_body.cases) auto

lemma attempts_returns:
  "raises_exceptions_only cl \<Longrightarrow> \<exists>s. fst (attempts cl tx n d w) = Inr s"
proof (induction n arbitrary: d w)
  case 0
  then show ?case by simp
next
  case (Suc n)
  obtain r1 w1 where c: "request_content cl (request_for tx) w = (r1, w1)"
    by (cases "request_content cl (request_for tx) w")
  have nb: "\<forall>m. r1 \<noteq> Inl (BaseExceptionOnly m)"
    using create_catchable[OF Suc.prems, of "request_for tx" w] c by simp
  show ?case
  proof (cases "attempt_body d (r1, w1)")
    case (Return r d' w')
    from attempt_body_returns[OF nb Return] obtain s where "r = Inr s" ..
    then show ?thesis using Return c by simp
  next
    case (Continue d' w')
    then show ?thesis using Suc.IH[OF Suc.prems, of d' w'] c by simp
  qed
qed

lemma get_explanation_returns:
  "raises_exceptions_only cl \<Longrightarrow> \<exists>s. fst (get_explanation cl tx n w) = Inr s"
  using attempts_returns[of cl tx n 1 w]
  by (auto simp: get_explanation_def split: prod.splits)

lemma create_frame:
  "request_content cl rq w = (r, w') \<Longrightarrow>
     sleeps_of who (trace w') = sleeps_of who (trace w) \<and> files w' = files w
     \<and> writes_of (trace w') = writes_of (trace w)"
  by (auto simp: request_content_world sleeps_of_append writes_of_append)

lemma attempt_body_frame:
  "attempt_body d (r, w) = st \<Longrightarrow> st = Return r' d' w' \<or> st = Continue d' w' \<Longrightarrow>
     sleeps_of In_process_presentation (trace w') = sleeps_of In_process_presentation (trace w)
     \<and> files w' = files w \<and> writes_of (trace w') = writes_of (trace w)"
  by (cases "(d, (r, w))" rule: attempt_body.cases)
     (auto simp: sleep_def logging_def sleeps_of_append writes_of_append)

lemma attempts_frame:
  "attempts cl tx n d w = (r, d', w') \<Longrightarrow>
     sleeps_of In_process_presentation (trace w') = sleeps_of In_process_presentation (trace w)
     \<and> files w' = files w \<and> writes_of (trace w') = writes_of (trace w)"
proof (induction n arbitrary: d w)
  case 0
  then show ?case by auto
next
  case (Suc n)
  obtain r1 w1 where c: "request_content cl (request_for tx) w = (r1, w1)"
    by (cases "request_content cl (request_for tx) w")
  note f1 = create_frame[OF c]
  show ?case
  proof (cases "attempt_body d (r1, w1)")
    case (Return r2 d2 w2)
    with Suc.prems c have "w' = w2" by simp
    with attempt_body_frame[OF Return] f1 show ?thesis by simp
  next
    case (Continue d2 w2)
    with Suc.prems c have "attempts cl tx n d2 w2 = (r, d', w')" by simp
    from Suc.IH[OF this] attempt_body_frame[OF Continue] f1 show ?thesis by simp
  qed
qed

lemma get_explanation_frame:
  "get_explanation cl tx n w = (r, w') \<Longrightarrow>
     sleeps_of In_process_presentation (trace w') = sleeps_of In_process_presentation (trace w)
     \<and> files w' = files w \<and> writes_of (trace w') = writes_of (trace w)"
  by (auto simp: get_explanation_def split: prod.splits dest: attempts_frame)


section \<open>Lemmas on the orchestrator's loop\<close>

lemma pacing_step:
  "sleeps_of In_process_presentation
     (trace (if (i + 1) mod 3 = 0 then
               sleep In_process_presentation 60 (logging INFO msg w1)
             else sleep In_process_presentation 20 w1))
   = sleeps_of In_process_presentation (trace w1) @ [pause_after i]"
  by (simp add: sleep_def logging_def sleeps_of_append pause_after_def)

lemma pacing_step_frame:
  "files (if (i + 1) mod 3 = 0 then
               sleep In_process_presentation 60 (logging INFO msg w1)
             else sleep In_process_presentation 20 (w1 :: 'c world)) = files w1
   \<and> writes_of (trace (if (i + 1) mod 3 = 0 then
               sleep In_process_presentation 60 (logging INFO msg w1)
             else sleep In_process_presentation 20 w1)) = writes_of (trace w1)"
  by (simp add: sleep_def logging_def writes_of_append)

lemma slides_loop_runs:
  assumes "raises_exceptions_only cl" and "\<forall>t \<in> set texts. t \<noteq> []"
  shows "\<exists>res w'. slides_loop cl n i texts acc w = (Inr res, w')
           \<and> length res = length acc + length texts
           \<and> take (length acc) res = acc
           \<and> sleeps_of In_process_presentation (trace w')
               = sleeps_of In_process_presentation (trace w) @ map pause_after [i..<i + length texts]
           \<and> files w' = files w
           \<and> writes_of (trace w') = writes_of (trace w)
           \<and> (texts \<noteq> [] \<longrightarrow>
                 last (trace w') = Sleep In_process_presentation (pause_after (i + length texts - 1)))"
  using assms(2)
proof (induction texts arbitrary: i acc w)
  case Nil
  then show ?case by simp
next
  case (Cons t rest)
  let ?w0 = "logging INFO (''Submitting slide '' @ str_nat (i + 1) @ ''/'' @ str_nat n
                           @ '' for explanation...'') w"
  obtain r w1 where g: "get_explanation cl t 5 ?w0 = (r, w1)"
    by (cases "get_explanation cl t 5 ?w0")
  from get_explanation_returns[OF assms(1), of t 5 ?w0] g obtain ex where r: "r = Inr ex"
    by auto
  note fr = get_explanation_frame[OF g]
  let ?w2 = "if (i + 1) mod 3 = 0 then
               sleep In_process_presentation 60
                 (logging INFO ''Processed 3 slides. Waiting for 1 minute to comply with rate limits...'' w1)
             else sleep In_process_presentation 20 w1"
  have ne: "t \<noteq> []" and rest: "\<forall>t \<in> set rest. t \<noteq> []" using Cons.prems by auto
  from Cons.IH[OF rest, of "i + 1" "acc @ [ex]" ?w2]
  obtain res w' where
    run: "slides_loop cl n (i + 1) rest (acc @ [ex]) ?w2 = (Inr res, w')"
    and len: "length res = length (acc @ [ex]) + length rest"
    and tk: "take (length (acc @ [ex])) res = acc @ [ex]"
    and sl: "sleeps_of In_process_presentation (trace w')
               = sleeps_of In_process_presentation (trace ?w2) @ map pause_after [i + 1..<i + 1 + length rest]"
    and fl: "files w' = files ?w2"
    and wr: "writes_of (trace w') = writes_of (trace ?w2)"
    and la: "rest \<noteq> [] \<longrightarrow>
               last (trace w') = Sleep In_process_presentation (pause_after (i + 1 + length rest - 1))"
    by blast
  have step: "slides_loop cl n i (t # rest) acc w = (Inr res, w')"
    using ne g r run by simp
  have w0: "sleeps_of In_process_presentation (trace ?w0) = sleeps_of In_process_presentation (trace w)"
    "files ?w0 = files w" "writes_of (trace ?w0) = writes_of (trace w)"
    by (simp_all add: logging_def sleeps_of_append writes_of_append)
  have s2: "sleeps_of In_process_presentation (trace ?w2)
              = sleeps_of In_process_presentation (trace w) @ [pause_after i]"
    using pacing_step[of i _ w1] fr w0 by simp
  have f2: "files ?w2 = files w" "writes_of (trace ?w2) = writes_of (trace w)"
    using pacing_step_frame[of i _ w1] fr w0 by simp_all
  have "[i..<Suc (i + length rest)] = i # [Suc i..<Suc (i + length rest)]"
    by (rule upt_conv_Cons) simp
  then have up: "[i..<i + length (t # rest)] = i # [i + 1..<i + 1 + length rest]"
    by simp
  have "take (length acc) res = take (length acc) (take (Suc (length acc)) res)"
    by (simp add: min_def)
  also have "\<dots> = take (length acc) (acc @ [ex])"
    using tk by simp
  finally have tk': "take (length acc) res = acc"
    by simp
  have l2: "last (trace ?w2) = Sleep In_process_presentation (pause_after i)"
    by (simp add: sleep_def logging_def pause_after_def)
  have la': "last (trace w') = Sleep In_process_presentation (pause_after (i + length (t # rest) - 1))"
  proof (cases rest)
    case Nil
    then have "w' = ?w2" using run by simp
    then show ?thesis using l2 Nil by simp
  next
    case (Cons a list)
    then show ?thesis using la by simp
  qed
  show ?case
    using step len tk' sl s2 fl f2 wr up la' by simp
qed

lemma slides_loop_append:
  "slides_loop cl n i (xs @ ys) acc w =
     (case slides_loop cl n i xs acc w of
        (Inl e, w') \<Rightarrow> (Inl e, w')
      | (Inr acc', w') \<Rightarrow> slides_loop cl n (i + length xs) ys acc' w')"
proof (induction xs arbitrary: i acc w)
  case Nil
  then show ?case by simp
next
  case (Cons t rest)
  show ?case
    by (simp add: Cons.IH split: prod.splits sum.splits)
qed

lemma all_texts_nonempty: "\<forall>t \<in> set (all_texts ppt). t \<noteq> []"
  by (auto simp: all_texts_def)

lemma all_texts_map: "all_texts ppt = map extract_text_from_slide (nonempty_slides ppt)"
proof -
  have "concat (map (\<lambda>x. if P x then [f x] else []) xs) = map f (filter P xs)" for P :: "slide \<Rightarrow> bool" and f :: "slide \<Rightarrow> string" and xs
    by (induction xs) auto
  then show ?thesis
    by (simp add: all_texts_def nonempty_slides_def)
qed

lemma process_presentation_runs:
  assumes "raises_exceptions_only cl" and "load file_path = Inr ppt"
  shows "\<exists>res w'. process_presentation load cl file_path w = (Inr res, w')
           \<and> length res = length (all_texts ppt)
           \<and> sleeps_of In_process_presentation (trace w')
               = sleeps_of In_process_presentation (trace w)
                 @ map pause_after [0..<length (all_texts ppt)]
           \<and> files w' = files w
           \<and> writes_of (trace w') = writes_of (trace w)
           \<and> (all_texts ppt \<noteq> [] \<longrightarrow>
                 last (trace w')
                 = Sleep In_process_presentation (pause_after (length (all_texts ppt) - 1)))"
proof -
  let ?w0 = "logging INFO (''Processing presentation: '' @ file_path) w"
  from slides_loop_runs[OF assms(1) all_texts_nonempty[of ppt],
      where n = "length (all_texts ppt)" and i = 0 and acc = "[]" and w = ?w0]
  obtain res w' where
    run: "slides_loop cl (length (all_texts ppt)) 0 (all_texts ppt) [] ?w0 = (Inr res, w')"
    and len: "length res = length ([] :: string list) + length (all_texts ppt)"
    and sl: "sleeps_of In_process_presentation (trace w')
               = sleeps_of In_process_presentation (trace ?w0)
                 @ map pause_after [0..<0 + length (all_texts ppt)]"
    and fl: "files w' = files ?w0"
    and wr: "writes_of (trace w') = writes_of (trace ?w0)"
    and la: "all_texts ppt \<noteq> [] \<longrightarrow>
               last (trace w')
               = Sleep In_process_presentation (pause_after (0 + length (all_texts ppt) - 1))"
    by blast
  have w0: "sleeps_of In_process_presentation (trace ?w0) = sleeps_of In_process_presentation (trace w)"
    "files ?w0 = files w" "writes_of (trace ?w0) = writes_of (trace w)"
    by (simp_all add: logging_def sleeps_of_append writes_of_append)
  have p: "process_presentation load cl file_path w = (Inr res, w')"
    using run assms(2) by (simp add: process_presentation_def)
  show ?thesis
    using p len sl fl wr la w0 by simp
qed

lemma pause_after_four: "map pause_after [0..<4] = [20, 20, 60, 20]"
  by (simp add: pause_after_def upt_rec)

lemma all_texts_four_slides:
  "all_texts four_slides = [''Title'', ''Lists and maps'', ''Sets'', ''Thanks'']"
  by (simp add: all_texts_def four_slides_def extract_text_from_slide_def strip_def lstrip_def
      rstrip_def isspace_def)

lemma always_succeeds_ok: "raises_exceptions_only always_succeeds"
  by (simp add: raises_exceptions_only_def always_succeeds_def)

section \<open>Lemmas on effects\<close>

lemma effects_append: "effects (xs @ ys) = effects xs @ effects ys"
  by (induction xs rule: effects.induct) auto

lemma sleeps_of_effects: "sleeps_of who (effects es) = sleeps_of who es"
  by (induction es rule: effects.induct) auto

lemma requests_of_effects: "requests_of (effects es) = requests_of es"
  by (induction es rule: effects.induct) auto

section \<open>What the requester returns\<close>

lemma requests_and_pauses_append:
  "requests_and_pauses (xs @ ys) = requests_and_pauses xs @ requests_and_pauses ys"
  by (induction xs rule: requests_and_pauses.induct) auto

lemma requests_of_requests_and_pauses: "requests_of (requests_and_pauses es) = requests_of es"
  by (induction es rule: requests_and_pauses.induct) auto

lemma requests_of_replicate: "requests_of (replicate a (Request rq)) = replicate a rq"
  by (induction a) auto

lemma attempts_outcome:
  assumes "raises_exceptions_only cl"
  shows "\<exists>s d' w' a. attempts cl tx n d w = (Inr s, d', w') \<and> a \<le> n
           \<and> requests_and_pauses (trace w')
               = requests_and_pauses (trace w) @ replicate a (Request (request_for tx))
           \<and> ((a = n \<and> s = ''Failed to get explanation after several retries due to rate limits.'')
                \<or> (1 \<le> a \<and> returned_for cl tx s))
           \<and> (answers_every_call cl \<and> 0 < n \<longrightarrow> a = 1)"
proof (induction n arbitrary: d w)
  case 0
  then show ?case by simp
next
  case (Suc n)
  let ?rq = "request_for tx"
  let ?w1 = "w\<lparr>cstate := snd (cl (cstate w) ?rq), trace := trace w @ [Request ?rq]\<rparr>"
  have t1: "requests_and_pauses (trace ?w1) = requests_and_pauses (trace w) @ [Request ?rq]"
    by (simp add: requests_and_pauses_append)
  have cont: "\<exists>s d' w' a. attempts cl tx (Suc n) d w = (Inr s, d', w') \<and> a \<le> Suc n
           \<and> requests_and_pauses (trace w')
               = requests_and_pauses (trace w) @ replicate a (Request ?rq)
           \<and> ((a = Suc n \<and> s = ''Failed to get explanation after several retries due to rate limits.'')
                \<or> (1 \<le> a \<and> returned_for cl tx s))
           \<and> (answers_every_call cl \<and> 0 < Suc n \<longrightarrow> a = 1)"
    if step: "attempts cl tx (Suc n) d w = attempts cl tx n d2 w2"
      and tr: "requests_and_pauses (trace w2) = requests_and_pauses (trace w) @ [Request ?rq]"
      and na: "\<not> answers_every_call cl"
    for d2 w2
  proof -
    from Suc.IH[of d2 w2] obtain s d' w' a where
      a: "attempts cl tx n d2 w2 = (Inr s, d', w')" and le: "a \<le> n"
      and r: "requests_and_pauses (trace w')
               = requests_and_pauses (trace w2) @ replicate a (Request ?rq)"
      and o: "(a = n \<and> s = ''Failed to get explanation after several retries due to rate limits.'')
                \<or> (1 \<le> a \<and> returned_for cl tx s)"
      by blast
    have r': "requests_and_pauses (trace w')
               = requests_and_pauses (trace w) @ replicate (Suc a) (Request ?rq)"
      using r tr by (simp add: replicate_app_Cons_same)
    have o': "(Suc a = Suc n \<and> s = ''Failed to get explanation after several retries due to rate limits.'')
                \<or> (1 \<le> Suc a \<and> returned_for cl tx s)"
      using o by auto
    show ?thesis
      using step a le r' o' na by (intro exI[of _ s] exI[of _ d'] exI[of _ w'] exI[of _ "Suc a"]) simp
  qed
  have ret: "\<exists>s d' w' a. attempts cl tx (Suc n) d w = (Inr s, d', w') \<and> a \<le> Suc n
           \<and> requests_and_pauses (trace w')
               = requests_and_pauses (trace w) @ replicate a (Request ?rq)
           \<and> ((a = Suc n \<and> s = ''Failed to get explanation after several retries due to rate limits.'')
                \<or> (1 \<le> a \<and> returned_for cl tx s))
           \<and> (answers_every_call cl \<and> 0 < Suc n \<longrightarrow> a = 1)"
    if step: "attempts cl tx (Suc n) d w = (Inr s, d, w2)"
      and tr: "requests_and_pauses (trace w2) = requests_and_pauses (trace w) @ [Request ?rq]"
      and rf: "returned_for cl tx s"
    for s w2
    using step tr rf by (intro exI[of _ s] exI[of _ d] exI[of _ w2] exI[of _ "1"]) simp
  show ?case
  proof (cases "fst (cl (cstate w) ?rq)")
    case (Inr msg)
    show ?thesis
    proof (cases msg)
      case (Subscriptable ans)
      have "returned_for cl tx (strip ans)"
        using Inr Subscriptable by (auto simp: returned_for_def)
      moreover have "attempts cl tx (Suc n) d w
            = (Inr (strip ans), d,
               logging INFO (''Received explanation: '' @ take 60 (strip ans) @ ''...'') ?w1)"
        using Inr Subscriptable by (simp add: request_content_world content_of_def)
      moreover have "requests_and_pauses
                       (trace (logging INFO (''Received explanation: '' @ take 60 (strip ans) @ ''...'') ?w1))
                     = requests_and_pauses (trace w) @ [Request ?rq]"
        by (simp add: logging_def requests_and_pauses_append)
      ultimately show ?thesis by (intro ret) auto
    next
      case (AttributeOnly ans)
      have "returned_for cl tx (''Error processing slide: '' @ not_subscriptable)"
        using Inr AttributeOnly by (auto simp: returned_for_def)
      moreover have "attempts cl tx (Suc n) d w
            = (Inr (''Error processing slide: '' @ not_subscriptable), d,
               logging ERROR (''Error processing slide: '' @ not_subscriptable) ?w1)"
        using Inr AttributeOnly by (simp add: request_content_world content_of_def)
      moreover have "requests_and_pauses
                       (trace (logging ERROR (''Error processing slide: '' @ not_subscriptable) ?w1))
                     = requests_and_pauses (trace w) @ [Request ?rq]"
        by (simp add: logging_def requests_and_pauses_append)
      ultimately show ?thesis by (intro ret) auto
    qed
  next
    case (Inl e)
    have na: "\<not> answers_every_call cl"
      using Inl by (auto simp: answers_every_call_def) (metis Inl_Inr_False)
    show ?thesis
    proof (cases e)
      case (RateLimitError m)
      show ?thesis
      proof (rule cont[OF _ _ na])
        show "attempts cl tx (Suc n) d w
              = attempts cl tx n d
                 (sleep In_get_explanation 60
                   (logging WARNING ''Rate limit exceeded. Waiting for 1 minute before retrying...'' ?w1))"
          using Inl RateLimitError by (simp add: request_content_world)
        show "requests_and_pauses (trace (sleep In_get_explanation 60
                   (logging WARNING ''Rate limit exceeded. Waiting for 1 minute before retrying...'' ?w1)))
              = requests_and_pauses (trace w) @ [Request ?rq]"
          by (simp add: sleep_def logging_def requests_and_pauses_append)
      qed
    next
      case (APIConnectionError m)
      show ?thesis
      proof (rule cont[OF _ _ na])
        show "attempts cl tx (Suc n) d w
              = attempts cl tx n (min (d * 2) 60)
                 (sleep In_get_explanation d
                   (logging ERROR (''Failed to connect to OpenAI API: '' @ m @ ''. Retrying in ''
                                   @ str_nat d @ '' seconds...'') ?w1))"
          using Inl APIConnectionError by (simp add: request_content_world)
        show "requests_and_pauses (trace (sleep In_get_explanation d
                   (logging ERROR (''Failed to connect to OpenAI API: '' @ m @ ''. Retrying in ''
                                   @ str_nat d @ '' seconds...'') ?w1)))
              = requests_and_pauses (trace w) @ [Request ?rq]"
          by (simp add: sleep_def logging_def requests_and_pauses_append)
      qed
    next
      case (APIError m)
      show ?thesis
      proof (rule cont[OF _ _ na])
        show "attempts cl tx (Suc n) d w
              = attempts cl tx n (min (d * 2) 60)
                 (sleep In_get_explanation d
                   (logging ERROR (''OpenAI API returned an error: '' @ m @ ''. Retrying in ''
                                   @ str_nat d @ '' seconds...'') ?w1))"
          using Inl APIError by (simp add: request_content_world)
        show "requests_and_pauses (trace (sleep In_get_explanation d
                   (logging ERROR (''OpenAI API returned an error: '' @ m @ ''. Retrying in ''
                                   @ str_nat d @ '' seconds...'') ?w1)))
              = requests_and_pauses (trace w) @ [Request ?rq]"
          by (simp add: sleep_def logging_def requests_and_pauses_append)
      qed
    next
      case (OtherException m)
      have "returned_for cl tx (''Error processing slide: '' @ m)"
        using Inl OtherException by (auto simp: returned_for_def)
      moreover have "attempts cl tx (Suc n) d w
            = (Inr (''Error processing slide: '' @ m), d,
               logging ERROR (''Error processing slide: '' @ m) ?w1)"
        using Inl OtherException by (simp add: request_content_world)
      moreover have "requests_and_pauses
                       (trace (logging ERROR (''Error processing slide: '' @ m) ?w1))
                     = requests_and_pauses (trace w) @ [Request ?rq]"
        by (simp add: logging_def requests_and_pauses_append)
      ultimately show ?thesis by (intro ret) auto
    next
      case (BaseExceptionOnly m)
      then show ?thesis
        using assms Inl by (simp add: raises_exceptions_only_def)
    qed
  qed
qed

lemma get_explanation_outcome:
  assumes "raises_exceptions_only cl"
  shows "\<exists>s w' a. get_explanation cl tx n w = (Inr s, w') \<and> a \<le> n
           \<and> requests_and_pauses (trace w')
               = requests_and_pauses (trace w) @ replicate a (Request (request_for tx))
           \<and> ((a = n \<and> s = ''Failed to get explanation after several retries due to rate limits.'')
                \<or> (1 \<le> a \<and> returned_for cl tx s))
           \<and> (answers_every_call cl \<and> 0 < n \<longrightarrow> a = 1)"
proof -
  from attempts_outcome[OF assms, of tx n 1 w] obtain s d' w' a where
    "attempts cl tx n 1 w = (Inr s, d', w')" "a \<le> n"
    "requests_and_pauses (trace w')
       = requests_and_pauses (trace w) @ replicate a (Request (request_for tx))"
    "(a = n \<and> s = ''Failed to get explanation after several retries due to rate limits.'')
       \<or> (1 \<le> a \<and> returned_for cl tx s)"
    "answers_every_call cl \<and> 0 < n \<longrightarrow> a = 1"
    by blast
  then show ?thesis
    by (intro exI[of _ s] exI[of _ w'] exI[of _ a]) (simp add: get_explanation_def)
qed

lemma slides_loop_trace:
  assumes c: "raises_exceptions_only cl"
  shows "\<forall>t \<in> set texts. t \<noteq> [] \<Longrightarrow>
         \<exists>res w' as. slides_loop cl n 0 texts [] w = (Inr res, w')
           \<and> length res = length texts \<and> length as = length texts
           \<and> (\<forall>k < length texts. 1 \<le> as ! k \<and> as ! k \<le> 5
                 \<and> (answers_every_call cl \<longrightarrow> as ! k = 1)
                 \<and> (res ! k = ''Failed to get explanation after several retries due to rate limits.''
                      \<or> returned_for cl (texts ! k) (res ! k)))
           \<and> requests_and_pauses (trace w')
               = requests_and_pauses (trace w)
                 @ concat (map (\<lambda>k. replicate (as ! k) (Request (request_for (texts ! k)))
                                     @ [Sleep In_process_presentation (pause_after k)])
                               [0..<length texts])"
proof (induction texts rule: rev_induct)
  case Nil
  then show ?case by simp
next
  case (snoc t xs)
  have nx: "\<forall>t \<in> set xs. t \<noteq> []" and nt: "t \<noteq> []"
    using snoc.prems by auto
  from snoc.IH[OF nx] obtain res0 w0 as0 where
    run0: "slides_loop cl n 0 xs [] w = (Inr res0, w0)"
    and lr0: "length res0 = length xs" and la0: "length as0 = length xs"
    and all0: "\<forall>k < length xs. 1 \<le> as0 ! k \<and> as0 ! k \<le> 5
                 \<and> (answers_every_call cl \<longrightarrow> as0 ! k = 1)
                 \<and> (res0 ! k = ''Failed to get explanation after several retries due to rate limits.''
                      \<or> returned_for cl (xs ! k) (res0 ! k))"
    and tr0: "requests_and_pauses (trace w0)
               = requests_and_pauses (trace w)
                 @ concat (map (\<lambda>k. replicate (as0 ! k) (Request (request_for (xs ! k)))
                                     @ [Sleep In_process_presentation (pause_after k)])
                               [0..<length xs])"
    by blast
  let ?i = "length xs"
  let ?wa = "logging INFO (''Submitting slide '' @ str_nat (?i + 1) @ ''/'' @ str_nat n
                           @ '' for explanation...'') w0"
  from get_explanation_outcome[OF c, of t 5 ?wa] obtain s w1 a where
    g: "get_explanation cl t 5 ?wa = (Inr s, w1)" and a5: "a \<le> 5"
    and tr1: "requests_and_pauses (trace w1)
               = requests_and_pauses (trace ?wa) @ replicate a (Request (request_for t))"
    and o: "(a = 5 \<and> s = ''Failed to get explanation after several retries due to rate limits.'')
              \<or> (1 \<le> a \<and> returned_for cl t s)"
    and an: "answers_every_call cl \<and> (0::nat) < 5 \<longrightarrow> a = 1"
    by blast
  let ?w2 = "if (?i + 1) mod 3 = 0 then
               sleep In_process_presentation 60
                 (logging INFO ''Processed 3 slides. Waiting for 1 minute to comply with rate limits...'' w1)
             else sleep In_process_presentation 20 w1"
  have run: "slides_loop cl n 0 (xs @ [t]) [] w = (Inr (res0 @ [s]), ?w2)"
    using run0 nt g by (simp add: slides_loop_append)
  have twa: "requests_and_pauses (trace ?wa) = requests_and_pauses (trace w0)"
    by (simp add: logging_def requests_and_pauses_append)
  have tr2: "requests_and_pauses (trace ?w2)
               = requests_and_pauses (trace w1) @ [Sleep In_process_presentation (pause_after ?i)]"
    by (simp add: sleep_def logging_def requests_and_pauses_append pause_after_def)
  let ?g = "\<lambda>k. replicate (as0 ! k) (Request (request_for (xs ! k)))
                  @ [Sleep In_process_presentation (pause_after k)]"
  let ?f = "\<lambda>k. replicate ((as0 @ [a]) ! k) (Request (request_for ((xs @ [t]) ! k)))
                 @ [Sleep In_process_presentation (pause_after k)]"
  have same: "map ?f [0..<?i] = map ?g [0..<?i]"
    using la0 by (intro map_cong) (simp_all add: nth_append)
  have lastf: "?f ?i = replicate a (Request (request_for t))
                       @ [Sleep In_process_presentation (pause_after ?i)]"
    using la0 by (simp add: nth_append)
  have cc0: "concat (map ?f [0..<length (xs @ [t])]) = concat (map ?f [0..<?i]) @ ?f ?i"
    by simp
  have cc: "concat (map ?f [0..<length (xs @ [t])])
                   = concat (map ?g [0..<?i]) @ replicate a (Request (request_for t))
                     @ [Sleep In_process_presentation (pause_after ?i)]"
    by (simp only: cc0 same lastf)
  have e1: "requests_and_pauses (trace ?w2)
              = requests_and_pauses (trace w)
                @ concat (map ?g [0..<?i]) @ replicate a (Request (request_for t))
                @ [Sleep In_process_presentation (pause_after ?i)]"
    using tr2 tr1 twa tr0 by simp
  have tr: "requests_and_pauses (trace ?w2)
              = requests_and_pauses (trace w) @ concat (map ?f [0..<length (xs @ [t])])"
    by (simp only: cc e1)
  have a1: "1 \<le> a" using o by auto
  have allk: "1 \<le> (as0 @ [a]) ! k \<and> (as0 @ [a]) ! k \<le> 5
                 \<and> (answers_every_call cl \<longrightarrow> (as0 @ [a]) ! k = 1)
                 \<and> ((res0 @ [s]) ! k = ''Failed to get explanation after several retries due to rate limits.''
                      \<or> returned_for cl ((xs @ [t]) ! k) ((res0 @ [s]) ! k))"
    if k: "k < length (xs @ [t])" for k
  proof (cases "k < length xs")
    case True
    then show ?thesis using all0 la0 lr0 by (simp add: nth_append)
  next
    case False
    then have "k = length xs" using k by simp
    then show ?thesis using la0 lr0 a1 a5 an o by (auto simp: nth_append)
  qed
  show ?case
  proof (intro exI[of _ "res0 @ [s]"] exI[of _ ?w2] exI[of _ "as0 @ [a]"] conjI)
    show "slides_loop cl n 0 (xs @ [t]) [] w = (Inr (res0 @ [s]), ?w2)"
      by (rule run)
    show "length (res0 @ [s]) = length (xs @ [t])"
      by (simp add: lr0)
    show "length (as0 @ [a]) = length (xs @ [t])"
      by (simp add: la0)
    show "\<forall>k < length (xs @ [t]). 1 \<le> (as0 @ [a]) ! k \<and> (as0 @ [a]) ! k \<le> 5
                 \<and> (answers_every_call cl \<longrightarrow> (as0 @ [a]) ! k = 1)
                 \<and> ((res0 @ [s]) ! k = ''Failed to get explanation after several retries due to rate limits.''
                      \<or> returned_for cl ((xs @ [t]) ! k) ((res0 @ [s]) ! k))"
      using allk by blast
    show "requests_and_pauses (trace ?w2)
              = requests_and_pauses (trace w) @ concat (map ?f [0..<length (xs @ [t])])"
      by (rule tr)
  qed
qed

section \<open>The requester follows the retry policy\<close>

lemma attempts_follow_the_policy:
  "fst (attempts cl tx n d w) = spec_explain (call_results cl (cstate w) (request_for tx) n)"
proof (induction n arbitrary: d w)
  case 0
  then show ?case by (simp add: spec_explain_def)
next
  case (Suc n)
  let ?rq = "request_for tx"
  let ?w1 = "w\<lparr>cstate := snd (cl (cstate w) ?rq), trace := trace w @ [Request ?rq]\<rparr>"
  have go_on: "fst (attempts cl tx (Suc n) d w)
                 = spec_explain (call_results cl (cstate w) ?rq (Suc n))"
    if step: "attempts cl tx (Suc n) d w = attempts cl tx n d2 w2"
      and st: "cstate w2 = snd (cl (cstate w) ?rq)"
      and re: "retried (fst (cl (cstate w) ?rq))"
    for d2 w2
  proof -
    have "fst (attempts cl tx n d2 w2) = spec_explain (call_results cl (cstate w2) ?rq n)"
      by (rule Suc.IH)
    then show ?thesis
      using step st re by (simp add: spec_explain_def)
  qed
  show ?case
  proof (cases "fst (cl (cstate w) ?rq)")
    case (Inr msg)
    then show ?thesis
      by (cases msg) (simp_all add: request_content_world content_of_def spec_explain_def)
  next
    case (Inl e)
    show ?thesis
    proof (cases e)
      case (RateLimitError m)
      show ?thesis
      proof (rule go_on)
        show "attempts cl tx (Suc n) d w
              = attempts cl tx n d
                 (sleep In_get_explanation 60
                   (logging WARNING ''Rate limit exceeded. Waiting for 1 minute before retrying...'' ?w1))"
          using Inl RateLimitError by (simp add: request_content_world)
        show "cstate (sleep In_get_explanation 60
                   (logging WARNING ''Rate limit exceeded. Waiting for 1 minute before retrying...'' ?w1))
              = snd (cl (cstate w) ?rq)"
          by (simp add: sleep_def logging_def)
        show "retried (fst (cl (cstate w) ?rq))"
          using Inl RateLimitError by simp
      qed
    next
      case (APIConnectionError m)
      show ?thesis
      proof (rule go_on)
        show "attempts cl tx (Suc n) d w
              = attempts cl tx n (min (d * 2) 60)
                 (sleep In_get_explanation d
                   (logging ERROR (''Failed to connect to OpenAI API: '' @ m @ ''. Retrying in ''
                                   @ str_nat d @ '' seconds...'') ?w1))"
          using Inl APIConnectionError by (simp add: request_content_world)
        show "cstate (sleep In_get_explanation d
                   (logging ERROR (''Failed to connect to OpenAI API: '' @ m @ ''. Retrying in ''
                                   @ str_nat d @ '' seconds...'') ?w1))
              = snd (cl (cstate w) ?rq)"
          by (simp add: sleep_def logging_def)
        show "retried (fst (cl (cstate w) ?rq))"
          using Inl APIConnectionError by simp
      qed
    next
      case (APIError m)
      show ?thesis
      proof (rule go_on)
        show "attempts cl tx (Suc n) d w
              = attempts cl tx n (min (d * 2) 60)
                 (sleep In_get_explanation d
                   (logging ERROR (''OpenAI API returned an error: '' @ m @ ''. Retrying in ''
                                   @ str_nat d @ '' seconds...'') ?w1))"
          using Inl APIError by (simp add: request_content_world)
        show "cstate (sleep In_get_explanation d
                   (logging ERROR (''OpenAI API returned an error: '' @ m @ ''. Retrying in ''
                                   @ str_nat d @ '' seconds...'') ?w1))
              = snd (cl (cstate w) ?rq)"
          by (simp add: sleep_def logging_def)
        show "retried (fst (cl (cstate w) ?rq))"
          using Inl APIError by simp
      qed
    next
      case (OtherException m)
      then show ?thesis
        using Inl by (simp add: request_content_world spec_explain_def)
    next
      case (BaseExceptionOnly m)
      then show ?thesis
        using Inl by (simp add: request_content_world spec_explain_def)
    qed
  qed
qed

lemma get_explanation_follows_the_policy:
  "fst (get_explanation cl tx n w) = spec_explain (call_results cl (cstate w) (request_for tx) n)"
  using attempts_follow_the_policy[of cl tx n 1 w]
  by (auto simp: get_explanation_def split: prod.splits)

section \<open>The requester never raises\<close>

lemma always_connection_error_ok: "raises_exceptions_only always_connection_error"
  by (simp add: raises_exceptions_only_def always_connection_error_def)

text \<open>
  Claim C3. Whatever the text and however the remote collaborator behaves on each call
  (an answer, a rate-limit error, a connection error, another API error or any other
  \<open>Exception\<close>), \<open>get_explanation\<close> raises nothing and returns a string after at most
  \<open>retries\<close> requests for that text: the fixed fallback when every attempt of the budget
  failed, and otherwise, after at least one request, the trimmed content of an answer of
  the collaborator or the fallback with the description of the exception. So a run gives
  every extracted slide one such string. Which string it is follows the retry policy: the
  first outcome that is not a rate-limit, connection or API error decides.
\<close>

theorem get_explanation_never_raises:
  assumes "raises_exceptions_only cl"
  shows "(\<exists>s w' a. get_explanation cl slide_text retries w = (Inr s, w') \<and> a \<le> retries
            \<and> requests_of (trace w')
                = requests_of (trace w) @ replicate a (request_for slide_text)
            \<and> ((a = retries
                  \<and> s = ''Failed to get explanation after several retries due to rate limits.'')
                 \<or> (1 \<le> a \<and> returned_for cl slide_text s)))
       \<and> (load file_path = Inr ppt \<longrightarrow>
            (\<exists>res w'. process_presentation load cl file_path w = (Inr res, w')
               \<and> length res = length (all_texts ppt)
               \<and> (\<forall>k < length res.
                     res ! k = ''Failed to get explanation after several retries due to rate limits.''
                     \<or> returned_for cl (all_texts ppt ! k) (res ! k))))
       \<and> fst (get_explanation cl slide_text retries w)
           = spec_explain (call_results cl (cstate w) (request_for slide_text) retries)"
proof -
  from get_explanation_outcome[OF assms, of slide_text retries w] obtain s w' a where
    g: "get_explanation cl slide_text retries w = (Inr s, w')" and le: "a \<le> retries"
    and tr: "requests_and_pauses (trace w')
               = requests_and_pauses (trace w) @ replicate a (Request (request_for slide_text))"
    and o: "(a = retries \<and> s = ''Failed to get explanation after several retries due to rate limits.'')
              \<or> (1 \<le> a \<and> returned_for cl slide_text s)"
    by blast
  have rq: "requests_of (trace w') = requests_of (trace w) @ replicate a (request_for slide_text)"
    using arg_cong[OF tr, of requests_of]
    by (simp add: requests_of_requests_and_pauses requests_of_append requests_of_replicate)
  have p1: "\<exists>s w' a. get_explanation cl slide_text retries w = (Inr s, w') \<and> a \<le> retries
            \<and> requests_of (trace w')
                = requests_of (trace w) @ replicate a (request_for slide_text)
            \<and> ((a = retries
                  \<and> s = ''Failed to get explanation after several retries due to rate limits.'')
                 \<or> (1 \<le> a \<and> returned_for cl slide_text s))"
    using g le rq o by blast
  have p2: "\<exists>res w'. process_presentation load cl file_path w = (Inr res, w')
               \<and> length res = length (all_texts ppt)
               \<and> (\<forall>k < length res.
                     res ! k = ''Failed to get explanation after several retries due to rate limits.''
                     \<or> returned_for cl (all_texts ppt ! k) (res ! k))"
    if l: "load file_path = Inr ppt"
  proof -
    let ?w0 = "logging INFO (''Processing presentation: '' @ file_path) w"
    from slides_loop_trace[OF assms all_texts_nonempty[of ppt],
        where n = "length (all_texts ppt)" and w = ?w0]
    obtain res w' where
      run: "slides_loop cl (length (all_texts ppt)) 0 (all_texts ppt) [] ?w0 = (Inr res, w')"
      and len: "length res = length (all_texts ppt)"
      and each: "\<forall>k < length (all_texts ppt).
                   res ! k = ''Failed to get explanation after several retries due to rate limits.''
                   \<or> returned_for cl (all_texts ppt ! k) (res ! k)"
      by blast
    have "process_presentation load cl file_path w = (Inr res, w')"
      using run l by (simp add: process_presentation_def)
    then show ?thesis using len each by auto
  qed
  have p3: "fst (get_explanation cl slide_text retries w)
           = spec_explain (call_results cl (cstate w) (request_for slide_text) retries)"
    by (rule get_explanation_follows_the_policy)
  show ?thesis
    using p1 p2 p3 by blast
qed

theorem get_explanation_never_raises_witness:
  "raises_exceptions_only always_connection_error
   \<and> (\<exists>w'. get_explanation always_connection_error ''Title'' 5 world0
              = (Inr ''Failed to get explanation after several retries due to rate limits.'', w')
         \<and> length (requests_of (trace w')) = 5)"
proof -
  have nr: "\<not> returned_for always_connection_error ''Title'' s" for s
    by (simp add: returned_for_def always_connection_error_def)
  have t: "trace world0 = []"
    by (simp add: world0_def)
  from get_explanation_never_raises[OF always_connection_error_ok, of "''Title''" 5 world0]
  obtain s w' a where
    g: "get_explanation always_connection_error ''Title'' 5 world0 = (Inr s, w')"
    and rq: "requests_of (trace w') = requests_of (trace world0) @ replicate a (request_for ''Title'')"
    and o: "(a = 5 \<and> s = ''Failed to get explanation after several retries due to rate limits.'')
              \<or> (1 \<le> a \<and> returned_for always_connection_error ''Title'' s)"
    by blast
  from o nr have "a = 5" and "s = ''Failed to get explanation after several retries due to rate limits.''"
    by auto
  then show ?thesis
    using always_connection_error_ok g rq t by simp
qed

section \<open>Pacing between requests\<close>

lemma four_indices: "[0..<4] = [0, 1, 2, 3]"
  by (simp add: upt_rec)

text \<open>
  Claim C1, as amended. In every run the orchestrator pauses after every slide it has had
  explained, the last one included: 60 seconds after the slides 3, 6, 9, ... (counted
  from 1) and 20 seconds after every other slide. The pause for a slide comes after the
  requests for that slide (between one and five, one when the collaborator answers every
  call) and before the first request for the next slide. With four slides with text the
  pauses are 20, 20, 60 and 20 seconds, and the pause after the last slide is the last
  effect of the loop.
\<close>

theorem pacing_pause_after_every_slide:
  assumes "raises_exceptions_only cl" and "load file_path = Inr ppt"
  shows "\<exists>res w'. process_presentation load cl file_path w = (Inr res, w')
           \<and> sleeps_of In_process_presentation (trace w')
               = sleeps_of In_process_presentation (trace w)
                 @ map pause_after [0..<length (all_texts ppt)]
           \<and> (all_texts ppt \<noteq> [] \<longrightarrow>
                 last (trace w')
                 = Sleep In_process_presentation (pause_after (length (all_texts ppt) - 1)))
           \<and> (length (all_texts ppt) = 4 \<longrightarrow>
                 sleeps_of In_process_presentation (trace w')
                 = sleeps_of In_process_presentation (trace w) @ [20, 20, 60, 20])
           \<and> (\<exists>as. length as = length (all_texts ppt)
                 \<and> (\<forall>k < length (all_texts ppt). 1 \<le> as ! k \<and> as ! k \<le> 5
                       \<and> (answers_every_call cl \<longrightarrow> as ! k = 1))
                 \<and> requests_and_pauses (trace w')
                     = requests_and_pauses (trace w)
                       @ concat (map (\<lambda>k. replicate (as ! k) (Request (request_for (all_texts ppt ! k)))
                                           @ [Sleep In_process_presentation (pause_after k)])
                                     [0..<length (all_texts ppt)]))"
proof -
  let ?w0 = "logging INFO (''Processing presentation: '' @ file_path) w"
  let ?n = "length (all_texts ppt)"
  from process_presentation_runs[where load = load and file_path = file_path and w = w, OF assms]
  obtain res w' where
    p: "process_presentation load cl file_path w = (Inr res, w')"
    and sl: "sleeps_of In_process_presentation (trace w')
               = sleeps_of In_process_presentation (trace w) @ map pause_after [0..<?n]"
    and la: "all_texts ppt \<noteq> [] \<longrightarrow>
               last (trace w') = Sleep In_process_presentation (pause_after (?n - 1))"
    by blast
  from slides_loop_trace[OF assms(1) all_texts_nonempty[of ppt], where n = ?n and w = ?w0]
  obtain res2 w2 as where
    run: "slides_loop cl ?n 0 (all_texts ppt) [] ?w0 = (Inr res2, w2)"
    and las: "length as = ?n"
    and each: "\<forall>k < ?n. 1 \<le> as ! k \<and> as ! k \<le> 5 \<and> (answers_every_call cl \<longrightarrow> as ! k = 1)"
    and tr: "requests_and_pauses (trace w2)
               = requests_and_pauses (trace ?w0)
                 @ concat (map (\<lambda>k. replicate (as ! k) (Request (request_for (all_texts ppt ! k)))
                                     @ [Sleep In_process_presentation (pause_after k)])
                               [0..<?n])"
    by blast
  have same: "w2 = w'"
    using run p assms(2) by (simp add: process_presentation_def)
  have w0: "requests_and_pauses (trace ?w0) = requests_and_pauses (trace w)"
    by (simp add: logging_def requests_and_pauses_append)
  have order: "\<exists>as. length as = ?n
                 \<and> (\<forall>k < ?n. 1 \<le> as ! k \<and> as ! k \<le> 5 \<and> (answers_every_call cl \<longrightarrow> as ! k = 1))
                 \<and> requests_and_pauses (trace w')
                     = requests_and_pauses (trace w)
                       @ concat (map (\<lambda>k. replicate (as ! k) (Request (request_for (all_texts ppt ! k)))
                                           @ [Sleep In_process_presentation (pause_after k)])
                                     [0..<?n])"
    using las each tr same w0 by auto
  have four: "?n = 4 \<longrightarrow>
                 sleeps_of In_process_presentation (trace w')
                 = sleeps_of In_process_presentation (trace w) @ [20, 20, 60, 20]"
    using sl pause_after_four by auto
  show ?thesis
    using p sl la four order by blast
qed

lemma always_succeeds_answers: "answers_every_call always_succeeds"
  by (simp add: answers_every_call_def always_succeeds_def)

theorem pacing_pause_after_every_slide_witness:
  "raises_exceptions_only always_succeeds \<and> load_four ''deck.pptx'' = Inr four_slides
   \<and> (\<exists>res w'. process_presentation load_four always_succeeds ''deck.pptx'' world0 = (Inr res, w')
         \<and> sleeps_of In_process_presentation (trace w') = [20, 20, 60, 20]
         \<and> requests_and_pauses (trace w')
             = [Request (request_for ''Title''), Sleep In_process_presentation 20,
                Request (request_for ''Lists and maps''), Sleep In_process_presentation 20,
                Request (request_for ''Sets''), Sleep In_process_presentation 60,
                Request (request_for ''Thanks''), Sleep In_process_presentation 20])"
proof -
  have h2: "load_four ''deck.pptx'' = Inr four_slides"
    by (simp add: load_four_def)
  have l: "length (all_texts four_slides) = 4"
    by (simp add: all_texts_four_slides)
  have t: "trace world0 = []"
    by (simp add: world0_def)
  from pacing_pause_after_every_slide[where load = load_four and file_path = "''deck.pptx''"
      and w = world0, OF always_succeeds_ok h2]
  obtain res w' as where
    p: "process_presentation load_four always_succeeds ''deck.pptx'' world0 = (Inr res, w')"
    and s4: "length (all_texts four_slides) = 4 \<longrightarrow>
               sleeps_of In_process_presentation (trace w')
               = sleeps_of In_process_presentation (trace world0) @ [20, 20, 60, 20]"
    and each: "\<forall>k < length (all_texts four_slides). 1 \<le> as ! k \<and> as ! k \<le> 5
                 \<and> (answers_every_call always_succeeds \<longrightarrow> as ! k = 1)"
    and tr: "requests_and_pauses (trace w')
               = requests_and_pauses (trace world0)
                 @ concat (map (\<lambda>k. replicate (as ! k) (Request (request_for (all_texts four_slides ! k)))
                                     @ [Sleep In_process_presentation (pause_after k)])
                               [0..<length (all_texts four_slides)])"
    by blast
  have ones: "as ! 0 = 1" "as ! Suc 0 = 1" "as ! Suc (Suc 0) = 1" "as ! Suc (Suc (Suc 0)) = 1"
    using each l always_succeeds_answers by simp_all
  have "requests_and_pauses (trace w')
             = [Request (request_for ''Title''), Sleep In_process_presentation 20,
                Request (request_for ''Lists and maps''), Sleep In_process_presentation 20,
                Request (request_for ''Sets''), Sleep In_process_presentation 60,
                Request (request_for ''Thanks''), Sleep In_process_presentation 20]"
    using tr t ones by (simp add: all_texts_four_slides four_indices pause_after_def)
  then show ?thesis
    using always_succeeds_ok h2 p s4 l t by simp
qed

text \<open>
  Claim C1 as the specification states it, with no pause after the last slide, fails on a
  document of four slides with text: the run pauses four times, not three.
\<close>

theorem no_pause_after_final_slide_counterexample:
  "length (all_texts four_slides) = 4
   \<and> sleeps_of In_process_presentation
        (trace (snd (process_presentation load_four always_succeeds ''deck.pptx'' world0)))
      = [20, 20, 60, 20]
   \<and> spec_pacing 4 = [20, 20, 60]
   \<and> sleeps_of In_process_presentation
        (trace (snd (process_presentation load_four always_succeeds ''deck.pptx'' world0)))
      \<noteq> spec_pacing (length (all_texts four_slides))"
proof -
  have h2: "load_four ''deck.pptx'' = Inr four_slides"
    by (simp add: load_four_def)
  have l: "length (all_texts four_slides) = 4"
    by (simp add: all_texts_four_slides)
  have t: "sleeps_of In_process_presentation (trace world0) = []"
    by (simp add: world0_def)
  have sp: "spec_pacing 4 = [20, 20, 60]"
    by (simp add: spec_pacing_def pause_after_def upt_rec)
  from process_presentation_runs[where load = load_four and file_path = "''deck.pptx''"
      and w = world0, OF always_succeeds_ok h2]
  have "sleeps_of In_process_presentation
          (trace (snd (process_presentation load_four always_succeeds ''deck.pptx'' world0)))
        = [20, 20, 60, 20]"
    using l t pause_after_four by auto
  then show ?thesis using l sp by simp
qed

section \<open>The result list follows the slides\<close>

lemma slides_loop_nth:
  assumes c: "raises_exceptions_only cl" and ne: "\<forall>t \<in> set texts. t \<noteq> []"
    and k: "k < length texts"
    and run: "slides_loop cl n 0 texts [] w0 = (Inr res, w')"
  shows "\<exists>wk. slides_loop cl n 0 (take k texts) [] w0 = (Inr (take k res), wk)
           \<and> fst (get_explanation cl (texts ! k) 5
                  (logging INFO (''Submitting slide '' @ str_nat (k + 1) @ ''/'' @ str_nat n
                                 @ '' for explanation...'') wk)) = Inr (res ! k)"
proof -
  let ?rest = "drop (Suc k) texts"
  have split: "texts = take k texts @ (texts ! k # ?rest)"
    using k by (simp add: id_take_nth_drop)
  have ne1: "\<forall>t \<in> set (take k texts). t \<noteq> []"
    using ne by (meson in_set_takeD)
  have ne2: "\<forall>t \<in> set ?rest. t \<noteq> []"
    using ne by (meson in_set_dropD)
  have nek: "texts ! k \<noteq> []" using ne k by simp
  from slides_loop_runs[OF c ne1, where n = n and i = 0 and acc = "[]" and w = w0]
  obtain rk wk where
    pre: "slides_loop cl n 0 (take k texts) [] w0 = (Inr rk, wk)"
    and lk: "length rk = length ([] :: string list) + length (take k texts)"
    by blast
  have lk': "length rk = k" using lk k by simp
  let ?wa = "logging INFO (''Submitting slide '' @ str_nat (k + 1) @ ''/'' @ str_nat n
                           @ '' for explanation...'') wk"
  obtain r w1 where g: "get_explanation cl (texts ! k) 5 ?wa = (r, w1)"
    by (cases "get_explanation cl (texts ! k) 5 ?wa")
  from get_explanation_returns[OF c, of "texts ! k" 5 ?wa] g obtain ex where r: "r = Inr ex"
    by auto
  let ?w2 = "if (k + 1) mod 3 = 0 then
               sleep In_process_presentation 60
                 (logging INFO ''Processed 3 slides. Waiting for 1 minute to comply with rate limits...'' w1)
             else sleep In_process_presentation 20 w1"
  from slides_loop_runs[OF c ne2, where n = n and i = "k + 1" and acc = "rk @ [ex]" and w = ?w2]
  obtain res2 w2 where
    post: "slides_loop cl n (k + 1) ?rest (rk @ [ex]) ?w2 = (Inr res2, w2)"
    and tk: "take (length (rk @ [ex])) res2 = rk @ [ex]"
    by blast
  have "slides_loop cl n 0 texts [] w0
          = slides_loop cl n 0 (take k texts @ (texts ! k # ?rest)) [] w0"
    using split by simp
  also have "\<dots> = slides_loop cl n k (texts ! k # ?rest) rk wk"
    using pre k by (simp add: slides_loop_append)
  also have "\<dots> = slides_loop cl n (k + 1) ?rest (rk @ [ex]) ?w2"
    using nek g r by simp
  finally have "res2 = res" using post run by simp
  with tk lk' have t1: "take (Suc k) res = rk @ [ex]" by simp
  then have "length (take (Suc k) res) = Suc k" using lk' by simp
  then have kl: "k < length res" by simp
  have "take (Suc k) res ! k = res ! k" by simp
  then have rk: "res ! k = ex" using t1 lk' by (simp add: nth_append)
  have "take k (take (Suc k) res) = take k res" by (simp add: min_def)
  then have "take k res = rk" using t1 lk' by simp
  then show ?thesis using pre g r rk by simp
qed

lemma length_all_texts: "length (all_texts ppt) = length (nonempty_slides ppt)"
  by (simp add: all_texts_map)

text \<open>
  Claim C7. The result list of a run has one entry for every slide whose extracted text
  is not empty, and its entry \<open>k\<close> is what \<open>get_explanation\<close> returned for the text of
  the \<open>k\<close>-th such slide in document order, asked in the world the loop had reached after
  the slides before it.
\<close>

theorem results_follow_the_slides:
  assumes "raises_exceptions_only cl" and "load file_path = Inr ppt"
  shows "\<exists>res w'. process_presentation load cl file_path w = (Inr res, w')
           \<and> length res = length [sl \<leftarrow> slides ppt. extract_text_from_slide sl \<noteq> []]
           \<and> (\<forall>k < length res.
                 fst (get_explanation cl (extract_text_from_slide (nonempty_slides ppt ! k)) 5
                       (world_before_slide cl ppt
                          (logging INFO (''Processing presentation: '' @ file_path) w) k))
                 = Inr (res ! k))"
proof -
  let ?w0 = "logging INFO (''Processing presentation: '' @ file_path) w"
  let ?n = "length (all_texts ppt)"
  from process_presentation_runs[where load = load and file_path = file_path and w = w, OF assms]
  obtain res w' where p: "process_presentation load cl file_path w = (Inr res, w')"
    and len: "length res = ?n"
    by blast
  have run: "slides_loop cl ?n 0 (all_texts ppt) [] ?w0 = (Inr res, w')"
    using p assms(2) by (simp add: process_presentation_def)
  have nth: "fst (get_explanation cl (extract_text_from_slide (nonempty_slides ppt ! k)) 5
                 (world_before_slide cl ppt ?w0 k)) = Inr (res ! k)" if k: "k < length res" for k
  proof -
    have k': "k < length (all_texts ppt)" using k len by simp
    from slides_loop_nth[OF assms(1) all_texts_nonempty k' run]
    obtain wk where
      a: "slides_loop cl ?n 0 (take k (all_texts ppt)) [] ?w0 = (Inr (take k res), wk)"
      and b: "fst (get_explanation cl (all_texts ppt ! k) 5
                (logging INFO (''Submitting slide '' @ str_nat (k + 1) @ ''/'' @ str_nat ?n
                               @ '' for explanation...'') wk)) = Inr (res ! k)"
      by blast
    have t: "all_texts ppt ! k = extract_text_from_slide (nonempty_slides ppt ! k)"
      using k' by (simp add: all_texts_map)
    show ?thesis
      using a b t by (simp add: world_before_slide_def)
  qed
  have "length res = length [sl \<leftarrow> slides ppt. extract_text_from_slide sl \<noteq> []]"
    using len by (simp add: length_all_texts nonempty_slides_def)
  then show ?thesis using p nth by blast
qed

theorem results_follow_the_slides_witness:
  "raises_exceptions_only always_succeeds \<and> load_four ''deck.pptx'' = Inr four_slides
   \<and> (\<exists>res w'. process_presentation load_four always_succeeds ''deck.pptx'' world0 = (Inr res, w')
         \<and> length res = 4)"
proof -
  have h2: "load_four ''deck.pptx'' = Inr four_slides"
    by (simp add: load_four_def)
  have l: "length [sl \<leftarrow> slides four_slides. extract_text_from_slide sl \<noteq> []] = 4"
    using all_texts_four_slides length_all_texts[of four_slides]
    by (simp add: nonempty_slides_def)
  from results_follow_the_slides[where load = load_four and file_path = "''deck.pptx''"
      and w = world0, OF always_succeeds_ok h2] always_succeeds_ok h2 l show ?thesis
    by auto
qed

section \<open>An unexpected exception ends the attempts\<close>

text \<open>
  Claim C5. When the first call raises an \<open>Exception\<close> that is no API error,
  \<open>get_explanation\<close> makes no further attempt and does not sleep: it returns at once the
  fallback string that ends with the description of the exception.
\<close>

theorem unexpected_exception_returns_at_once:
  assumes "fst (cl (cstate w) (request_for slide_text)) = Inl (OtherException m)"
    and "0 < retries"
  shows "\<exists>w'. get_explanation cl slide_text retries w
               = (Inr (''Error processing slide: '' @ m), w')
           \<and> effects (trace w') = effects (trace w) @ [Request (request_for slide_text)]"
proof -
  from assms(2) obtain n where n: "retries = Suc n"
    by (cases retries) auto
  show ?thesis
    using assms(1)
    by (simp add: n get_explanation_def request_content_world logging_def effects_append)
qed

theorem unexpected_exception_returns_at_once_witness:
  "fst (raises_value_error (cstate world0) (request_for ''Title'')) = Inl (OtherException ''bad value'')
   \<and> (0::nat) < 5
   \<and> (\<exists>w'. get_explanation raises_value_error ''Title'' 5 world0
              = (Inr ''Error processing slide: bad value'', w')
         \<and> effects (trace w') = [Request (request_for ''Title'')])"
proof -
  have h: "fst (raises_value_error (cstate world0) (request_for ''Title''))
             = Inl (OtherException ''bad value'')"
    by (simp add: raises_value_error_def)
  have t: "effects (trace world0) = []"
    by (simp add: world0_def)
  have r: "(0::nat) < 5" by simp
  from unexpected_exception_returns_at_once[where cl = raises_value_error and w = world0
      and slide_text = "''Title''" and retries = 5, OF h r] h t show ?thesis
    by simp
qed

section \<open>Exhausting the retry budget\<close>

lemma attempts_connection_errors:
  assumes "\<forall>c rq. \<exists>m. fst (cl c rq) = Inl (APIConnectionError m)"
  shows "\<exists>d' w'. attempts cl tx n d w
                  = (Inr ''Failed to get explanation after several retries due to rate limits.'', d', w')
           \<and> effects (trace w')
               = effects (trace w)
                 @ concat (map (\<lambda>k. [Request (request_for tx), Sleep In_get_explanation k])
                               (backoff d n))"
proof (induction n arbitrary: d w)
  case 0
  then show ?case by simp
next
  case (Suc n)
  from assms obtain m where m: "fst (cl (cstate w) (request_for tx)) = Inl (APIConnectionError m)"
    by blast
  let ?w1 = "w\<lparr>cstate := snd (cl (cstate w) (request_for tx)),
               trace := trace w @ [Request (request_for tx)]\<rparr>"
  let ?w2 = "sleep In_get_explanation d
               (logging ERROR (''Failed to connect to OpenAI API: '' @ m @ ''. Retrying in ''
                               @ str_nat d @ '' seconds...'') ?w1)"
  have step: "attempts cl tx (Suc n) d w = attempts cl tx n (min (d * 2) 60) ?w2"
    using m by (simp add: request_content_world)
  have e2: "effects (trace ?w2)
              = effects (trace w) @ [Request (request_for tx), Sleep In_get_explanation d]"
    by (simp add: sleep_def logging_def effects_append)
  from Suc.IH[of "min (d * 2) 60" ?w2] obtain d' w' where
    a: "attempts cl tx n (min (d * 2) 60) ?w2
          = (Inr ''Failed to get explanation after several retries due to rate limits.'', d', w')"
    and b: "effects (trace w')
              = effects (trace ?w2)
                @ concat (map (\<lambda>k. [Request (request_for tx), Sleep In_get_explanation k])
                              (backoff (min (d * 2) 60) n))"
    by blast
  show ?case
    using step a b e2 by simp
qed

lemma sleeps_of_backoff_trace:
  "sleeps_of In_get_explanation
     (concat (map (\<lambda>k. [Request rq, Sleep In_get_explanation k]) ds)) = ds"
  by (induction ds) auto

lemma requests_of_backoff_trace:
  "requests_of (concat (map (\<lambda>k. [Request rq, Sleep In_get_explanation k]) ds))
     = replicate (length ds) rq"
  by (induction ds) auto

lemma length_backoff: "length (backoff d n) = n"
  by (induction n arbitrary: d) auto

lemma backoff_five: "backoff 1 5 = [1, 2, 4, 8, 16]"
  by (simp add: eval_nat_numeral)

lemma backoff_eight: "backoff 1 8 = [1, 2, 4, 8, 16, 32, 60, 60]"
  by (simp add: eval_nat_numeral)

text \<open>
  Claim C2. Against a collaborator that raises a connection error on every call,
  \<open>get_explanation\<close> makes exactly 5 attempts, sleeps 1, 2, 4, 8 and 16 seconds, one
  delay after each failed attempt, and then returns the fixed fallback string. With any
  retry budget the delays double from 1 and stay at 60 once they would pass it.
\<close>

theorem connection_errors_exhaust_the_retries:
  assumes "\<forall>c rq. \<exists>m. fst (cl c rq) = Inl (APIConnectionError m)"
  shows "(\<exists>w'. get_explanation cl slide_text 5 w
               = (Inr ''Failed to get explanation after several retries due to rate limits.'', w')
           \<and> effects (trace w')
               = effects (trace w)
                 @ [Request (request_for slide_text), Sleep In_get_explanation 1,
                    Request (request_for slide_text), Sleep In_get_explanation 2,
                    Request (request_for slide_text), Sleep In_get_explanation 4,
                    Request (request_for slide_text), Sleep In_get_explanation 8,
                    Request (request_for slide_text), Sleep In_get_explanation 16]
           \<and> requests_of (trace w') = requests_of (trace w) @ replicate 5 (request_for slide_text)
           \<and> sleeps_of In_get_explanation (trace w')
               = sleeps_of In_get_explanation (trace w) @ [1, 2, 4, 8, 16])
       \<and> (\<exists>w'. get_explanation cl slide_text retries w
               = (Inr ''Failed to get explanation after several retries due to rate limits.'', w')
           \<and> requests_of (trace w')
               = requests_of (trace w) @ replicate retries (request_for slide_text)
           \<and> sleeps_of In_get_explanation (trace w')
               = sleeps_of In_get_explanation (trace w) @ backoff 1 retries)
       \<and> backoff 1 8 = [1, 2, 4, 8, 16, 32, 60, 60]"
proof -
  have gen: "\<exists>w'. get_explanation cl slide_text n w
               = (Inr ''Failed to get explanation after several retries due to rate limits.'', w')
           \<and> effects (trace w')
               = effects (trace w)
                 @ concat (map (\<lambda>k. [Request (request_for slide_text), Sleep In_get_explanation k])
                               (backoff 1 n))" for n
    using attempts_connection_errors[OF assms, of slide_text n 1 w]
    by (auto simp: get_explanation_def)
  from gen[of 5] obtain w5 where
    g5: "get_explanation cl slide_text 5 w
           = (Inr ''Failed to get explanation after several retries due to rate limits.'', w5)"
    and e5: "effects (trace w5)
               = effects (trace w)
                 @ concat (map (\<lambda>k. [Request (request_for slide_text), Sleep In_get_explanation k])
                               (backoff 1 5))"
    by blast
  have r5: "requests_of (trace w5) = requests_of (trace w) @ replicate 5 (request_for slide_text)"
    using arg_cong[OF e5, of requests_of]
    by (simp add: requests_of_effects requests_of_append requests_of_backoff_trace length_backoff)
  have "sleeps_of In_get_explanation (trace w5)
          = sleeps_of In_get_explanation (trace w) @ backoff 1 5"
    using arg_cong[OF e5, of "sleeps_of In_get_explanation"]
    by (simp add: sleeps_of_effects sleeps_of_append sleeps_of_backoff_trace del: One_nat_def)
  then have s5: "sleeps_of In_get_explanation (trace w5)
              = sleeps_of In_get_explanation (trace w) @ [1, 2, 4, 8, 16]"
    by (simp only: backoff_five)
  note e5' = e5[unfolded backoff_five]
  have p1: "\<exists>w'. get_explanation cl slide_text 5 w
               = (Inr ''Failed to get explanation after several retries due to rate limits.'', w')
           \<and> effects (trace w')
               = effects (trace w)
                 @ [Request (request_for slide_text), Sleep In_get_explanation 1,
                    Request (request_for slide_text), Sleep In_get_explanation 2,
                    Request (request_for slide_text), Sleep In_get_explanation 4,
                    Request (request_for slide_text), Sleep In_get_explanation 8,
                    Request (request_for slide_text), Sleep In_get_explanation 16]
           \<and> requests_of (trace w') = requests_of (trace w) @ replicate 5 (request_for slide_text)
           \<and> sleeps_of In_get_explanation (trace w')
               = sleeps_of In_get_explanation (trace w) @ [1, 2, 4, 8, 16]"
    using g5 e5' r5 s5 by simp
  from gen[of retries] obtain wr where
    gr: "get_explanation cl slide_text retries w
           = (Inr ''Failed to get explanation after several retries due to rate limits.'', wr)"
    and er: "effects (trace wr)
               = effects (trace w)
                 @ concat (map (\<lambda>k. [Request (request_for slide_text), Sleep In_get_explanation k])
                               (backoff 1 retries))"
    by blast
  have rr: "requests_of (trace wr)
              = requests_of (trace w) @ replicate retries (request_for slide_text)"
    using arg_cong[OF er, of requests_of]
    by (simp add: requests_of_effects requests_of_append requests_of_backoff_trace length_backoff)
  have sr: "sleeps_of In_get_explanation (trace wr)
              = sleeps_of In_get_explanation (trace w) @ backoff 1 retries"
    using arg_cong[OF er, of "sleeps_of In_get_explanation"]
    by (simp add: sleeps_of_effects sleeps_of_append sleeps_of_backoff_trace)
  have p2: "\<exists>w'. get_explanation cl slide_text retries w
               = (Inr ''Failed to get explanation after several retries due to rate limits.'', w')
           \<and> requests_of (trace w')
               = requests_of (trace w) @ replicate retries (request_for slide_text)
           \<and> sleeps_of In_get_explanation (trace w')
               = sleeps_of In_get_explanation (trace w) @ backoff 1 retries"
    using gr rr sr by simp
  show ?thesis
    using p1 p2 backoff_eight by blast
qed

theorem connection_errors_exhaust_the_retries_witness:
  "(\<forall>c rq. \<exists>m. fst (always_connection_error c rq) = Inl (APIConnectionError m))
   \<and> (\<exists>w'. get_explanation always_connection_error ''Title'' 5 world0
              = (Inr ''Failed to get explanation after several retries due to rate limits.'', w')
         \<and> sleeps_of In_get_explanation (trace w') = [1, 2, 4, 8, 16]
         \<and> length (requests_of (trace w')) = 5)"
proof -
  have h: "\<forall>c rq. \<exists>m. fst (always_connection_error c rq) = Inl (APIConnectionError m)"
    by (simp add: always_connection_error_def)
  have t: "trace world0 = []"
    by (simp add: world0_def)
  from connection_errors_exhaust_the_retries[OF h, of "''Title''" world0 5]
  obtain w' where
    a: "get_explanation always_connection_error ''Title'' 5 world0
          = (Inr ''Failed to get explanation after several retries due to rate limits.'', w')"
    and b: "requests_of (trace w') = requests_of (trace world0) @ replicate 5 (request_for ''Title'')"
    and c: "sleeps_of In_get_explanation (trace w')
              = sleeps_of In_get_explanation (trace world0) @ [1, 2, 4, 8, 16]"
    by blast
  have "length (requests_of (trace w')) = 5"
    using b t by simp
  then show ?thesis
    using h a c t by simp
qed

section \<open>Rate limits\<close>

text \<open>
  Claim C4. After a rate-limit error \<open>get_explanation\<close> sleeps exactly 60 seconds and goes
  on to the next attempt with \<open>delay\<close> as it was. Against a collaborator that raises
  rate-limit errors on its first two calls and answers the third, it sleeps twice 60
  seconds and \<open>delay\<close> is still 1 at the end. It returns the trimmed answer when the
  message of the response has a subscript; when the message is an object of the client
  library, which has none, it returns the fallback with the description of the
  \<open>TypeError\<close> instead of the answer.
\<close>

theorem rate_limit_waits_a_minute:
  assumes "cstate w = c0"
    and "cl c0 (request_for slide_text) = (Inl (RateLimitError m1), c1)"
    and "cl c1 (request_for slide_text) = (Inl (RateLimitError m2), c2)"
    and "cl c2 (request_for slide_text) = (Inr msg, c3)"
  shows "(\<exists>w'. attempts cl slide_text 5 1 w
               = (case msg of
                    Subscriptable ans \<Rightarrow> Inr (strip ans)
                  | AttributeOnly ans \<Rightarrow> Inr (''Error processing slide: '' @ not_subscriptable),
                  1, w')
            \<and> get_explanation cl slide_text 5 w
                = (case msg of
                     Subscriptable ans \<Rightarrow> Inr (strip ans)
                   | AttributeOnly ans \<Rightarrow> Inr (''Error processing slide: '' @ not_subscriptable),
                   w')
            \<and> effects (trace w')
                = effects (trace w)
                  @ [Request (request_for slide_text), Sleep In_get_explanation 60,
                     Request (request_for slide_text), Sleep In_get_explanation 60,
                     Request (request_for slide_text)])
       \<and> (\<forall>d m v. attempt_body d (Inl (RateLimitError m), v)
              = Continue d
                  (v\<lparr>trace := trace v
                       @ [Log WARNING ''Rate limit exceeded. Waiting for 1 minute before retrying...'',
                          Sleep In_get_explanation 60]\<rparr>))
       \<and> (\<forall>n d m v v1. request_content cl (request_for slide_text) v = (Inl (RateLimitError m), v1) \<longrightarrow>
              attempts cl slide_text (Suc n) d v
              = attempts cl slide_text n d
                  (sleep In_get_explanation 60
                    (logging WARNING ''Rate limit exceeded. Waiting for 1 minute before retrying...'' v1)))"
proof -
  have five: "(5::nat) = Suc (Suc (Suc (Suc (Suc 0))))"
    by simp
  have a: "\<exists>w'. attempts cl slide_text 5 1 w
               = (case msg of
                    Subscriptable ans \<Rightarrow> Inr (strip ans)
                  | AttributeOnly ans \<Rightarrow> Inr (''Error processing slide: '' @ not_subscriptable),
                  1, w')
            \<and> effects (trace w')
                = effects (trace w)
                  @ [Request (request_for slide_text), Sleep In_get_explanation 60,
                     Request (request_for slide_text), Sleep In_get_explanation 60,
                     Request (request_for slide_text)]"
    unfolding five
    by (cases msg)
       (simp_all add: request_content_world content_of_def assms sleep_def logging_def
          effects_append)
  then have p1: "\<exists>w'. attempts cl slide_text 5 1 w
               = (case msg of
                    Subscriptable ans \<Rightarrow> Inr (strip ans)
                  | AttributeOnly ans \<Rightarrow> Inr (''Error processing slide: '' @ not_subscriptable),
                  1, w')
            \<and> get_explanation cl slide_text 5 w
                = (case msg of
                     Subscriptable ans \<Rightarrow> Inr (strip ans)
                   | AttributeOnly ans \<Rightarrow> Inr (''Error processing slide: '' @ not_subscriptable),
                   w')
            \<and> effects (trace w')
                = effects (trace w)
                  @ [Request (request_for slide_text), Sleep In_get_explanation 60,
                     Request (request_for slide_text), Sleep In_get_explanation 60,
                     Request (request_for slide_text)]"
    by (auto simp: get_explanation_def)
  have p2: "\<forall>d m v. attempt_body d (Inl (RateLimitError m), v)
              = Continue d
                  (v\<lparr>trace := trace v
                       @ [Log WARNING ''Rate limit exceeded. Waiting for 1 minute before retrying...'',
                          Sleep In_get_explanation 60]\<rparr>)"
    by (simp add: sleep_def logging_def)
  have p3: "\<forall>n d m v v1. request_content cl (request_for slide_text) v = (Inl (RateLimitError m), v1) \<longrightarrow>
              attempts cl slide_text (Suc n) d v
              = attempts cl slide_text n d
                  (sleep In_get_explanation 60
                    (logging WARNING ''Rate limit exceeded. Waiting for 1 minute before retrying...'' v1))"
    by simp
  show ?thesis
    using p1 p2 p3 by blast
qed

text \<open>
  The run of claim C4 with the response objects of the client library: two sleeps of 60
  seconds, \<open>delay\<close> still 1, and the fallback string where the claim has the explanation.
  With a message that has a subscript the same run returns the trimmed answer.
\<close>

theorem rate_limit_waits_a_minute_witness:
  "cstate world0 = 0
   \<and> rate_limited_twice_library 0 (request_for ''Title'') = (Inl (RateLimitError ''Rate limit reached''), 1)
   \<and> rate_limited_twice_library 1 (request_for ''Title'') = (Inl (RateLimitError ''Rate limit reached''), 2)
   \<and> rate_limited_twice_library 2 (request_for ''Title'') = (Inr (AttributeOnly '' A slide about lists. ''), 3)
   \<and> (\<exists>w'. attempts rate_limited_twice_library ''Title'' 5 1 world0
              = (Inr (''Error processing slide: '' @ not_subscriptable), 1, w')
         \<and> sleeps_of In_get_explanation (trace w') = [60, 60])
   \<and> (\<exists>w'. attempts rate_limited_twice ''Title'' 5 1 world0 = (Inr ''A slide about lists.'', 1, w')
         \<and> sleeps_of In_get_explanation (trace w') = [60, 60])"
proof -
  have h0: "cstate world0 = 0"
    by (simp add: world0_def)
  have h1: "rate_limited_twice_library 0 (request_for ''Title'')
              = (Inl (RateLimitError ''Rate limit reached''), 1)"
    by (simp add: rate_limited_twice_library_def)
  have h2: "rate_limited_twice_library 1 (request_for ''Title'')
              = (Inl (RateLimitError ''Rate limit reached''), 2)"
    by (simp add: rate_limited_twice_library_def)
  have h3: "rate_limited_twice_library 2 (request_for ''Title'')
              = (Inr (AttributeOnly '' A slide about lists. ''), 3)"
    by (simp add: rate_limited_twice_library_def)
  have k1: "rate_limited_twice 0 (request_for ''Title'')
              = (Inl (RateLimitError ''Rate limit reached''), 1)"
    by (simp add: rate_limited_twice_def)
  have k2: "rate_limited_twice 1 (request_for ''Title'')
              = (Inl (RateLimitError ''Rate limit reached''), 2)"
    by (simp add: rate_limited_twice_def)
  have k3: "rate_limited_twice 2 (request_for ''Title'')
              = (Inr (Subscriptable '' A slide about lists. ''), 3)"
    by (simp add: rate_limited_twice_def)
  have s: "strip '' A slide about lists. '' = ''A slide about lists.''"
    by (simp add: strip_def lstrip_def rstrip_def isspace_def)
  have t: "effects (trace world0) = []"
    by (simp add: world0_def)
  from rate_limit_waits_a_minute[where cl = rate_limited_twice_library and w = world0
      and slide_text = "''Title''" and ?c0.0 = 0 and ?c1.0 = 1 and ?c2.0 = 2 and ?c3.0 = 3,
      OF h0 h1 h2 h3]
  obtain w' where
    a: "attempts rate_limited_twice_library ''Title'' 5 1 world0
          = (Inr (''Error processing slide: '' @ not_subscriptable), 1, w')"
    and e: "effects (trace w')
              = effects (trace world0)
                @ [Request (request_for ''Title''), Sleep In_get_explanation 60,
                   Request (request_for ''Title''), Sleep In_get_explanation 60,
                   Request (request_for ''Title'')]"
    by auto
  have sa: "sleeps_of In_get_explanation (trace w') = [60, 60]"
    using arg_cong[OF e, of "sleeps_of In_get_explanation"] t
    by (simp add: sleeps_of_effects)
  from rate_limit_waits_a_minute[where cl = rate_limited_twice and w = world0
      and slide_text = "''Title''" and ?c0.0 = 0 and ?c1.0 = 1 and ?c2.0 = 2 and ?c3.0 = 3,
      OF h0 k1 k2 k3]
  obtain v' where
    b: "attempts rate_limited_twice ''Title'' 5 1 world0
          = (Inr (strip '' A slide about lists. ''), 1, v')"
    and f: "effects (trace v')
              = effects (trace world0)
                @ [Request (request_for ''Title''), Sleep In_get_explanation 60,
                   Request (request_for ''Title''), Sleep In_get_explanation 60,
                   Request (request_for ''Title'')]"
    by auto
  have sb: "sleeps_of In_get_explanation (trace v') = [60, 60]"
    using arg_cong[OF f, of "sleeps_of In_get_explanation"] t
    by (simp add: sleeps_of_effects)
  show ?thesis
    using h0 h1 h2 h3 a sa b sb s by simp
qed

section \<open>Documents without text\<close>

lemma all_texts_blank:
  "\<forall>sl \<in> set (slides ppt). extract_text_from_slide sl = [] \<Longrightarrow> all_texts ppt = []"
  by (simp add: all_texts_def)

lemma json_dump_empty: "json_dump [] = ''[]''"
  by (simp add: json_dump_def)

text \<open>
  Claim C10. When no slide of the document has text after trimming (a document without
  slides included), the run sends no request and does not sleep; it still writes the
  output file, which holds the empty JSON array.
\<close>

theorem blank_document_writes_empty_array:
  assumes "load file_path = Inr ppt"
    and "\<forall>sl \<in> set (slides ppt). extract_text_from_slide sl = []"
  shows "\<exists>w'. main load cl file_path w = (Inr (), w')
           \<and> trace w'
               = trace w
                 @ [Log INFO (''Processing presentation: '' @ file_path),
                    Log INFO (''Saving explanations to '' @ output_file file_path),
                    Write (output_file file_path) ''[]'',
                    Log INFO (''Explanations saved to '' @ output_file file_path)]
           \<and> requests_of (trace w') = requests_of (trace w)
           \<and> (\<forall>who. sleeps_of who (trace w') = sleeps_of who (trace w))
           \<and> cstate w' = cstate w
           \<and> files w' = (files w)(output_file file_path \<mapsto> ''[]'')"
  using assms(1) all_texts_blank[OF assms(2)]
  by (simp add: main_def process_presentation_def save_explanations_def write_file_def
      logging_def output_file_def json_dump_empty requests_of_append sleeps_of_append)

theorem blank_document_writes_empty_array_witness:
  "load_blank ''d/blank.pptx'' = Inr blank_slides
   \<and> map extract_text_from_slide (slides blank_slides) = [[], [], []]
   \<and> (\<exists>w'. main load_blank always_succeeds ''d/blank.pptx'' world0 = (Inr (), w')
         \<and> requests_of (trace w') = []
         \<and> files w' (output_file ''d/blank.pptx'') = Some ''[]'')"
proof -
  have h1: "load_blank ''d/blank.pptx'' = Inr blank_slides"
    by (simp add: load_blank_def)
  have h2: "\<forall>sl \<in> set (slides blank_slides). extract_text_from_slide sl = []"
    by (simp add: blank_slides_def extract_text_from_slide_def strip_def lstrip_def rstrip_def
        isspace_def)
  have t: "trace world0 = []"
    by (simp add: world0_def)
  from blank_document_writes_empty_array[where load = load_blank and file_path = "''d/blank.pptx''"
      and w = world0 and cl = always_succeeds, OF h1 h2]
  obtain w' where
    a: "main load_blank always_succeeds ''d/blank.pptx'' world0 = (Inr (), w')"
    and b: "requests_of (trace w') = requests_of (trace world0)"
    and c: "files w' = (files world0)(output_file ''d/blank.pptx'' \<mapsto> ''[]'')"
    by blast
  have h3: "map extract_text_from_slide (slides blank_slides) = [[], [], []]"
    by (simp add: blank_slides_def extract_text_from_slide_def strip_def lstrip_def rstrip_def
        isspace_def)
  show ?thesis
    using h1 h3 a b c t by simp
qed

section \<open>The extractor\<close>

lemma shapes_loop_concat:
  "shapes_loop shs acc = acc @ concat [t @ '' ''. WithText t \<leftarrow> shs]"
  by (induction shs acc rule: shapes_loop.induct) auto

lemma rev_strip_split:
  "rev (dropWhile P (rev u)) @ rev (takeWhile P (rev u)) = u"
proof -
  have "rev (dropWhile P (rev u)) @ rev (takeWhile P (rev u))
          = rev (takeWhile P (rev u) @ dropWhile P (rev u))"
    by (simp only: rev_append)
  also have "\<dots> = rev (rev u)"
    by (simp only: takeWhile_dropWhile_id)
  also have "\<dots> = u"
    by simp
  finally show ?thesis .
qed

lemma strip_decomposition:
  "\<exists>l r. s = l @ strip s @ r \<and> (\<forall>c \<in> set l. isspace c) \<and> (\<forall>c \<in> set r. isspace c)"
proof (intro exI conjI)
  let ?u = "dropWhile isspace s"
  have "takeWhile isspace s @ strip s @ rev (takeWhile isspace (rev ?u))
          = takeWhile isspace s @ ?u"
    by (simp only: strip_def lstrip_def rstrip_def rev_strip_split)
  then show "s = takeWhile isspace s @ strip s @ rev (takeWhile isspace (rev ?u))"
    by simp
  show "\<forall>c \<in> set (takeWhile isspace s). isspace c"
    by (auto dest: set_takeWhileD)
  show "\<forall>c \<in> set (rev (takeWhile isspace (rev ?u))). isspace c"
    by (auto dest: set_takeWhileD)
qed

lemma strip_ends:
  assumes "strip s \<noteq> []"
  shows "\<not> isspace (hd (strip s)) \<and> \<not> isspace (last (strip s))"
proof -
  let ?u = "dropWhile isspace s"
  let ?v = "dropWhile isspace (rev ?u)"
  have st: "strip s = rev ?v"
    by (simp add: strip_def lstrip_def rstrip_def)
  have v: "?v \<noteq> []" using assms st by simp
  have u: "?u \<noteq> []"
  proof
    assume a: "?u = []"
    have "?v = dropWhile isspace (rev [])"
      by (simp only: a)
    then have "?v = []" by simp
    with v show False by simp
  qed
  have "\<not> isspace (hd ?v)"
    using v by (rule hd_dropWhile)
  then have l: "\<not> isspace (last (strip s))"
    using v st by (simp add: last_rev)
  have "last (takeWhile isspace (rev ?u) @ ?v) = last ?v"
    using v by (rule last_appendR)
  then have "last (rev ?u) = last ?v"
    by (simp only: takeWhile_dropWhile_id)
  then have "last ?v = hd ?u"
    using u by (simp add: last_rev)
  then have hh: "hd (strip s) = hd ?u"
    using st v by (simp add: hd_rev)
  have "\<not> isspace (hd ?u)"
    using u by (rule hd_dropWhile)
  then have h: "\<not> isspace (hd (strip s))"
    using hh by simp
  show ?thesis using h l by simp
qed

lemma isspace_ranges:
  "isspace c \<longleftrightarrow> (9 \<le> (of_char c :: nat) \<and> (of_char c :: nat) \<le> 13)
                  \<or> (28 \<le> (of_char c :: nat) \<and> (of_char c :: nat) \<le> 32)
                  \<or> (of_char c :: nat) = 133 \<or> (of_char c :: nat) = 160"
  unfolding isspace_def by (simp only: insert_iff empty_iff) arith

text \<open>
  Claim C6, as amended. For every document the extractor produces, in document order, one
  string per slide, formed by concatenating the text of every shape that exposes a text
  attribute, each followed by one space, and trimming whitespace at both ends (and only
  there); it leaves out every slide whose string is empty after trimming. Whitespace is
  what \<open>str.strip()\<close> removes: the code points 9 to 13, 28 to 32, 133 and 160.
\<close>

theorem slide_texts_joined_with_spaces:
  "extract_text_from_slide sl = strip (concat [t @ '' ''. WithText t \<leftarrow> shapes sl])
   \<and> (\<exists>l r. concat [t @ '' ''. WithText t \<leftarrow> shapes sl] = l @ extract_text_from_slide sl @ r
         \<and> (\<forall>c \<in> set l. isspace c) \<and> (\<forall>c \<in> set r. isspace c))
   \<and> (extract_text_from_slide sl \<noteq> [] \<longrightarrow>
         \<not> isspace (hd (extract_text_from_slide sl))
         \<and> \<not> isspace (last (extract_text_from_slide sl)))
   \<and> all_texts ppt = [t \<leftarrow> map extract_text_from_slide (slides ppt). t \<noteq> []]
   \<and> (\<forall>t \<in> set (all_texts ppt). t \<noteq> [])
   \<and> (\<forall>c. isspace c \<longleftrightarrow>
            (9 \<le> (of_char c :: nat) \<and> (of_char c :: nat) \<le> 13)
            \<or> (28 \<le> (of_char c :: nat) \<and> (of_char c :: nat) \<le> 32)
            \<or> (of_char c :: nat) = 133 \<or> (of_char c :: nat) = 160)"
proof -
  have e: "extract_text_from_slide sl = strip (concat [t @ '' ''. WithText t \<leftarrow> shapes sl])"
    using shapes_loop_concat[of "shapes sl" "[]"] by (simp add: extract_text_from_slide_def)
  have d: "\<exists>l r. concat [t @ '' ''. WithText t \<leftarrow> shapes sl] = l @ extract_text_from_slide sl @ r
         \<and> (\<forall>c \<in> set l. isspace c) \<and> (\<forall>c \<in> set r. isspace c)"
    unfolding e by (rule strip_decomposition)
  have n: "extract_text_from_slide sl \<noteq> [] \<longrightarrow>
         \<not> isspace (hd (extract_text_from_slide sl))
         \<and> \<not> isspace (last (extract_text_from_slide sl))"
    unfolding e using strip_ends by blast
  have a: "all_texts ppt = [t \<leftarrow> map extract_text_from_slide (slides ppt). t \<noteq> []]"
    by (simp add: all_texts_map nonempty_slides_def filter_map comp_def)
  have sp: "\<forall>c. isspace c \<longleftrightarrow>
            (9 \<le> (of_char c :: nat) \<and> (of_char c :: nat) \<le> 13)
            \<or> (28 \<le> (of_char c :: nat) \<and> (of_char c :: nat) \<le> 32)
            \<or> (of_char c :: nat) = 133 \<or> (of_char c :: nat) = 160"
    using isspace_ranges by blast
  show ?thesis
    by (intro conjI) (rule e, rule d, rule n, rule a, rule all_texts_nonempty, rule sp)
qed

theorem slide_texts_joined_with_spaces_witness:
  "extract_text_from_slide \<lparr>shapes = [WithText ''Lists'', WithText ''and maps'']\<rparr> = ''Lists and maps''
   \<and> all_texts blank_slides = []"
proof -
  let ?sl = "\<lparr>shapes = [WithText ''Lists'', WithText ''and maps'']\<rparr>"
  note th = slide_texts_joined_with_spaces[of ?sl blank_slides]
  have c: "concat [t @ '' ''. WithText t \<leftarrow> shapes ?sl] = ''Lists and maps ''"
    by simp
  have s: "strip ''Lists and maps '' = ''Lists and maps''"
    by (simp add: strip_def lstrip_def rstrip_def isspace_def)
  have e: "extract_text_from_slide ?sl = strip (concat [t @ '' ''. WithText t \<leftarrow> shapes ?sl])"
    by (rule th[THEN conjunct1])
  have e': "extract_text_from_slide ?sl = ''Lists and maps''"
    by (simp only: e c s)
  have b: "map extract_text_from_slide (slides blank_slides) = [[], [], []]"
    by (simp add: blank_slides_def extract_text_from_slide_def strip_def lstrip_def rstrip_def
        isspace_def)
  have a: "all_texts blank_slides = [t \<leftarrow> map extract_text_from_slide (slides blank_slides). t \<noteq> []]"
    by (rule th[THEN conjunct2, THEN conjunct2, THEN conjunct2, THEN conjunct1])
  have a': "all_texts blank_slides = []"
    by (simp only: a b) simp
  show ?thesis
    using e' a' by simp
qed

text \<open>
  Claim C6 as the specification states it, with the texts of the shapes concatenated and
  nothing between them, fails on a slide with the two shapes \<open>a\<close> and \<open>b\<close>: the extractor
  gives \<open>a b\<close>, not \<open>ab\<close>.
\<close>

theorem plain_concatenation_counterexample:
  "extract_text_from_slide \<lparr>shapes = [WithText ''a'', WithText ''b'']\<rparr> = ''a b''
   \<and> spec_slide_text \<lparr>shapes = [WithText ''a'', WithText ''b'']\<rparr> = ''ab''
   \<and> extract_text_from_slide \<lparr>shapes = [WithText ''a'', WithText ''b'']\<rparr>
       \<noteq> spec_slide_text \<lparr>shapes = [WithText ''a'', WithText ''b'']\<rparr>"
  by (simp add: extract_text_from_slide_def spec_slide_text_def strip_def lstrip_def rstrip_def
      isspace_def)

section \<open>The whole run\<close>

lemma main_runs:
  assumes "raises_exceptions_only cl" and "load file_path = Inr ppt"
  shows "\<exists>res w1. process_presentation load cl file_path w = (Inr res, w1)
           \<and> length res = length (all_texts ppt)
           \<and> files w1 = files w
           \<and> writes_of (trace w1) = writes_of (trace w)
           \<and> main load cl file_path w
               = (Inr (),
                  w1\<lparr>trace := trace w1
                        @ [Log INFO (''Saving explanations to '' @ output_file file_path),
                           Write (output_file file_path) (json_dump res),
                           Log INFO (''Explanations saved to '' @ output_file file_path)],
                      files := (files w1)(output_file file_path \<mapsto> json_dump res)\<rparr>)"
proof -
  from process_presentation_runs[where load = load and file_path = file_path and w = w, OF assms]
  obtain res w1 where
    p: "process_presentation load cl file_path w = (Inr res, w1)"
    and len: "length res = length (all_texts ppt)"
    and fl: "files w1 = files w"
    and wr: "writes_of (trace w1) = writes_of (trace w)"
    by blast
  have m: "main load cl file_path w
               = (Inr (),
                  w1\<lparr>trace := trace w1
                        @ [Log INFO (''Saving explanations to '' @ output_file file_path),
                           Write (output_file file_path) (json_dump res),
                           Log INFO (''Explanations saved to '' @ output_file file_path)],
                      files := (files w1)(output_file file_path \<mapsto> json_dump res)\<rparr>)"
    using p by (simp add: main_def save_explanations_def write_file_def logging_def output_file_def)
  show ?thesis
    using p len fl wr m by blast
qed

text \<open>
  Claim C9. Without the variable \<open>OPENAI_API_KEY\<close> in the environment the process logs an
  error and exits with status 1, and nothing else has happened: no request, no file
  written, the document not looked at. With the variable, a document that loads and a
  collaborator that raises only instances of \<open>Exception\<close>, the process runs the
  presentation, writes the output file, logs the line that names the output path last,
  and exits with status 0.
\<close>

theorem credential_decides_the_exit:
  "(env ''OPENAI_API_KEY'' = None \<longrightarrow>
      script env load mk_client file_path w
      = (Exit 1,
         w\<lparr>trace := trace w
              @ [Log ERROR ''OPENAI_API_KEY is not set. Please set it in your environment variables.'']\<rparr>))
   \<and> (env ''OPENAI_API_KEY'' = Some key \<and> raises_exceptions_only (mk_client key)
        \<and> load file_path = Inr ppt \<longrightarrow>
        (\<exists>res w1 w'. process_presentation load (mk_client key) file_path w = (Inr res, w1)
           \<and> script env load mk_client file_path w = (Exit 0, w')
           \<and> trace w'
               = trace w1
                 @ [Log INFO (''Saving explanations to '' @ output_file file_path),
                    Write (output_file file_path) (json_dump res),
                    Log INFO (''Explanations saved to '' @ output_file file_path)]
           \<and> writes_of (trace w')
               = writes_of (trace w) @ [(output_file file_path, json_dump res)]
           \<and> files w' = (files w)(output_file file_path \<mapsto> json_dump res)))"
proof (intro conjI impI)
  assume "env ''OPENAI_API_KEY'' = None"
  then show "script env load mk_client file_path w
      = (Exit 1,
         w\<lparr>trace := trace w
              @ [Log ERROR ''OPENAI_API_KEY is not set. Please set it in your environment variables.'']\<rparr>)"
    by (simp add: script_def logging_def)
next
  assume a: "env ''OPENAI_API_KEY'' = Some key \<and> raises_exceptions_only (mk_client key)
        \<and> load file_path = Inr ppt"
  then have k: "env ''OPENAI_API_KEY'' = Some key" and c: "raises_exceptions_only (mk_client key)"
    and l: "load file_path = Inr ppt"
    by simp_all
  from main_runs[where load = load and file_path = file_path and w = w, OF c l]
  obtain res w1 where
    p: "process_presentation load (mk_client key) file_path w = (Inr res, w1)"
    and fl: "files w1 = files w"
    and wr: "writes_of (trace w1) = writes_of (trace w)"
    and m: "main load (mk_client key) file_path w
               = (Inr (),
                  w1\<lparr>trace := trace w1
                        @ [Log INFO (''Saving explanations to '' @ output_file file_path),
                           Write (output_file file_path) (json_dump res),
                           Log INFO (''Explanations saved to '' @ output_file file_path)],
                      files := (files w1)(output_file file_path \<mapsto> json_dump res)\<rparr>)"
    by blast
  let ?w' = "w1\<lparr>trace := trace w1
                        @ [Log INFO (''Saving explanations to '' @ output_file file_path),
                           Write (output_file file_path) (json_dump res),
                           Log INFO (''Explanations saved to '' @ output_file file_path)],
                      files := (files w1)(output_file file_path \<mapsto> json_dump res)\<rparr>"
  have s: "script env load mk_client file_path w = (Exit 0, ?w')"
    using k m by (simp add: script_def)
  have t: "trace ?w'
               = trace w1
                 @ [Log INFO (''Saving explanations to '' @ output_file file_path),
                    Write (output_file file_path) (json_dump res),
                    Log INFO (''Explanations saved to '' @ output_file file_path)]"
    by simp
  have wr': "writes_of (trace ?w') = writes_of (trace w) @ [(output_file file_path, json_dump res)]"
    using wr by (simp add: writes_of_append)
  have fl': "files ?w' = (files w)(output_file file_path \<mapsto> json_dump res)"
    using fl by simp
  show "\<exists>res w1 w'. process_presentation load (mk_client key) file_path w = (Inr res, w1)
           \<and> script env load mk_client file_path w = (Exit 0, w')
           \<and> trace w'
               = trace w1
                 @ [Log INFO (''Saving explanations to '' @ output_file file_path),
                    Write (output_file file_path) (json_dump res),
                    Log INFO (''Explanations saved to '' @ output_file file_path)]
           \<and> writes_of (trace w')
               = writes_of (trace w) @ [(output_file file_path, json_dump res)]
           \<and> files w' = (files w)(output_file file_path \<mapsto> json_dump res)"
    using p s t wr' fl' by blast
qed

theorem credential_decides_the_exit_witness:
  "script env_without_key load_four make_client ''d/deck.pptx'' world0
     = (Exit 1,
        world0\<lparr>trace := trace world0
                 @ [Log ERROR ''OPENAI_API_KEY is not set. Please set it in your environment variables.'']\<rparr>)
   \<and> (\<exists>w'. script env_with_key load_four make_client ''d/deck.pptx'' world0 = (Exit 0, w')
         \<and> length (writes_of (trace w')) = 1
         \<and> last (trace w') = Log INFO (''Explanations saved to '' @ output_file ''d/deck.pptx''))"
proof -
  have n: "env_without_key ''OPENAI_API_KEY'' = None"
    by (simp add: env_without_key_def)
  have k: "env_with_key ''OPENAI_API_KEY'' = Some ''sk-test''"
    by (simp add: env_with_key_def)
  have c: "raises_exceptions_only (make_client ''sk-test'')"
    by (simp add: make_client_def always_succeeds_ok)
  have l: "load_four ''d/deck.pptx'' = Inr four_slides"
    by (simp add: load_four_def)
  have t: "writes_of (trace world0) = []"
    by (simp add: world0_def)
  note a = credential_decides_the_exit[where env = env_without_key and load = load_four
      and mk_client = make_client and file_path = "''d/deck.pptx''" and w = world0,
      THEN conjunct1, rule_format, OF n]
  from credential_decides_the_exit[where env = env_with_key and load = load_four
      and mk_client = make_client and file_path = "''d/deck.pptx''" and w = world0
      and key = "''sk-test''" and ppt = four_slides, THEN conjunct2, rule_format, OF conjI[OF k conjI[OF c l]]]
  have ex: "\<exists>res w1 w'. process_presentation load_four (make_client ''sk-test'') ''d/deck.pptx'' world0
                  = (Inr res, w1)
           \<and> script env_with_key load_four make_client ''d/deck.pptx'' world0 = (Exit 0, w')
           \<and> trace w'
               = trace w1
                 @ [Log INFO (''Saving explanations to '' @ output_file ''d/deck.pptx''),
                    Write (output_file ''d/deck.pptx'') (json_dump res),
                    Log INFO (''Explanations saved to '' @ output_file ''d/deck.pptx'')]
           \<and> writes_of (trace w')
               = writes_of (trace world0) @ [(output_file ''d/deck.pptx'', json_dump res)]
           \<and> files w' = (files world0)(output_file ''d/deck.pptx'' \<mapsto> json_dump res)" .
  then obtain res where "\<exists>w1 w'. process_presentation load_four (make_client ''sk-test'') ''d/deck.pptx'' world0
                  = (Inr res, w1)
           \<and> script env_with_key load_four make_client ''d/deck.pptx'' world0 = (Exit 0, w')
           \<and> trace w'
               = trace w1
                 @ [Log INFO (''Saving explanations to '' @ output_file ''d/deck.pptx''),
                    Write (output_file ''d/deck.pptx'') (json_dump res),
                    Log INFO (''Explanations saved to '' @ output_file ''d/deck.pptx'')]
           \<and> writes_of (trace w')
               = writes_of (trace world0) @ [(output_file ''d/deck.pptx'', json_dump res)]
           \<and> files w' = (files world0)(output_file ''d/deck.pptx'' \<mapsto> json_dump res)" ..
  then obtain w1 where "\<exists>w'. process_presentation load_four (make_client ''sk-test'') ''d/deck.pptx'' world0
                  = (Inr res, w1)
           \<and> script env_with_key load_four make_client ''d/deck.pptx'' world0 = (Exit 0, w')
           \<and> trace w'
               = trace w1
                 @ [Log INFO (''Saving explanations to '' @ output_file ''d/deck.pptx''),
                    Write (output_file ''d/deck.pptx'') (json_dump res),
                    Log INFO (''Explanations saved to '' @ output_file ''d/deck.pptx'')]
           \<and> writes_of (trace w')
               = writes_of (trace world0) @ [(output_file ''d/deck.pptx'', json_dump res)]
           \<and> files w' = (files world0)(output_file ''d/deck.pptx'' \<mapsto> json_dump res)" ..
  then obtain w' where all: "process_presentation load_four (make_client ''sk-test'') ''d/deck.pptx'' world0
                  = (Inr res, w1)
           \<and> script env_with_key load_four make_client ''d/deck.pptx'' world0 = (Exit 0, w')
           \<and> trace w'
               = trace w1
                 @ [Log INFO (''Saving explanations to '' @ output_file ''d/deck.pptx''),
                    Write (output_file ''d/deck.pptx'') (json_dump res),
                    Log INFO (''Explanations saved to '' @ output_file ''d/deck.pptx'')]
           \<and> writes_of (trace w')
               = writes_of (trace world0) @ [(output_file ''d/deck.pptx'', json_dump res)]
           \<and> files w' = (files world0)(output_file ''d/deck.pptx'' \<mapsto> json_dump res)" ..
  note s = all[THEN conjunct2, THEN conjunct1]
  note tr = all[THEN conjunct2, THEN conjunct2, THEN conjunct1]
  note wr = all[THEN conjunct2, THEN conjunct2, THEN conjunct2, THEN conjunct1]
  have "length (writes_of (trace w')) = 1"
    using wr t by simp
  moreover have "last (trace w') = Log INFO (''Explanations saved to '' @ output_file ''d/deck.pptx'')"
    using tr by simp
  ultimately have "\<exists>w'. script env_with_key load_four make_client ''d/deck.pptx'' world0 = (Exit 0, w')
         \<and> length (writes_of (trace w')) = 1
         \<and> last (trace w') = Log INFO (''Explanations saved to '' @ output_file ''d/deck.pptx'')"
    using s by (intro exI[of _ w'] conjI)
  with a show ?thesis
    by (rule conjI)
qed

section \<open>The output file\<close>

lemma rfind_last_occurrence:
  assumes "c \<notin> set ys"
  shows "rfind c (xs @ c # ys) = int (length xs)"
proof -
  have "takeWhile (\<lambda>x. x \<noteq> c) (rev ys @ c # rev xs) = rev ys @ takeWhile (\<lambda>x. x \<noteq> c) (c # rev xs)"
    using assms by (intro takeWhile_append2) auto
  then have e: "takeWhile (\<lambda>x. x \<noteq> c) (rev (xs @ c # ys)) = rev ys"
    by simp
  show ?thesis
    unfolding rfind_def Let_def e by simp
qed

lemma rfind_absent:
  assumes "c \<notin> set p"
  shows "rfind c p = - 1"
proof -
  have e: "takeWhile (\<lambda>x. x \<noteq> c) (rev p) = rev p"
    using assms by (auto simp: takeWhile_eq_all_conv)
  show ?thesis
    unfolding rfind_def Let_def e by simp
qed

lemma leading_dots_loop_finds:
  "0 \<le> f \<Longrightarrow> f \<le> j \<Longrightarrow> j < d \<Longrightarrow> p ! nat j \<noteq> CHR ''.'' \<Longrightarrow> leading_dots_loop p f d"
proof (induction p f d rule: leading_dots_loop.induct)
  case (1 p f d)
  have fd: "f < d" using "1.prems" by simp
  show ?case
  proof (cases "p ! nat f \<noteq> CHR ''.''")
    case True
    then show ?thesis using fd by (simp add: leading_dots_loop.simps[of p f d])
  next
    case False
    then have "f \<noteq> j" using "1.prems" by auto
    then have "f + 1 \<le> j" using "1.prems" by simp
    then have "leading_dots_loop p (f + 1) d"
      using "1.IH"[OF fd] False "1.prems" by simp
    then show ?thesis using fd False by (simp add: leading_dots_loop.simps[of p f d])
  qed
qed

lemma splitext_stem:
  assumes "stem \<noteq> []" and "last stem \<noteq> CHR ''.''" and "last stem \<noteq> CHR ''/''"
    and "CHR ''.'' \<notin> set ext" and "CHR ''/'' \<notin> set ext"
  shows "splitext (stem @ ''.'' @ ext) = (stem, ''.'' @ ext)"
proof -
  let ?p = "stem @ CHR ''.'' # ext"
  have dot: "rfind CHR ''.'' ?p = int (length stem)"
    using assms(4) by (rule rfind_last_occurrence)
  have sep: "- 1 \<le> rfind CHR ''/'' ?p \<and> rfind CHR ''/'' ?p + 1 \<le> int (length stem) - 1"
  proof (cases "CHR ''/'' \<in> set stem")
    case True
    then obtain xs ys where st: "stem = xs @ CHR ''/'' # ys" and ys: "CHR ''/'' \<notin> set ys"
      by (meson split_list_last)
    have "ys \<noteq> []"
    proof
      assume "ys = []"
      then have "last stem = CHR ''/''" using st by simp
      with assms(3) show False by simp
    qed
    then have len: "length xs + 2 \<le> length stem"
      using st by (cases ys) simp_all
    have "CHR ''/'' \<notin> set (ys @ CHR ''.'' # ext)"
      using ys assms(5) by simp
    then have "rfind CHR ''/'' (xs @ CHR ''/'' # (ys @ CHR ''.'' # ext)) = int (length xs)"
      by (rule rfind_last_occurrence)
    then have "rfind CHR ''/'' ?p = int (length xs)"
      using st by simp
    then show ?thesis using len by simp
  next
    case False
    then have "CHR ''/'' \<notin> set ?p"
      using assms(5) by simp
    then have "rfind CHR ''/'' ?p = - 1"
      by (rule rfind_absent)
    then show ?thesis using assms(1) by (cases stem) simp_all
  qed
  have lastc: "?p ! nat (int (length stem) - 1) \<noteq> CHR ''.''"
  proof -
    have "nat (int (length stem) - 1) = length stem - 1"
      by simp
    moreover have "?p ! (length stem - 1) = stem ! (length stem - 1)"
      using assms(1) by (simp add: nth_append)
    moreover have "stem ! (length stem - 1) = last stem"
      using assms(1) by (simp add: last_conv_nth)
    ultimately show ?thesis using assms(2) by simp
  qed
  have loop: "leading_dots_loop ?p (rfind CHR ''/'' ?p + 1) (int (length stem))"
  proof (rule leading_dots_loop_finds[where j = "int (length stem) - 1"])
    show "0 \<le> rfind CHR ''/'' ?p + 1" using sep by simp
    show "rfind CHR ''/'' ?p + 1 \<le> int (length stem) - 1" using sep by simp
    show "int (length stem) - 1 < int (length stem)" by simp
    show "?p ! nat (int (length stem) - 1) \<noteq> CHR ''.''" by (rule lastc)
  qed
  have gt: "rfind CHR ''/'' ?p < int (length stem)"
    using sep by simp
  have "splitext ?p = (take (length stem) ?p, drop (length stem) ?p)"
    using dot loop gt by (simp add: splitext_def Let_def)
  then show ?thesis by simp
qed

lemma items_loop_rest:
  "items_loop False xs = concat (map (\<lambda>s. '','' @ CHR 0x0A # ''    '' @ json_string s) xs)"
  by (induction xs) (simp_all add: newline_indent_def)

lemma json_dump_layout:
  "json_dump (x # xs)
     = ''['' @ CHR 0x0A # ''    '' @ json_string x
       @ concat (map (\<lambda>s. '','' @ CHR 0x0A # ''    '' @ json_string s) xs)
       @ [CHR 0x0A] @ '']''"
  by (simp add: json_dump_def items_loop_rest newline_indent_def)

lemma escape_char_plain:
  assumes "32 \<le> (of_char c :: nat)" and "(of_char c :: nat) \<le> 126"
    and "c \<noteq> CHR 0x22" and "c \<noteq> CHR 0x5C"
  shows "escape_char c = [c]"
proof -
  have "c \<noteq> CHR 0x0A" "c \<noteq> CHR 0x0D" "c \<noteq> CHR 0x09" "c \<noteq> CHR 0x08" "c \<noteq> CHR 0x0C"
    using assms(1) by auto
  then show ?thesis
    using assms by (simp add: escape_char_def)
qed

lemma json_string_plain:
  assumes "\<forall>c \<in> set s. 32 \<le> (of_char c :: nat) \<and> (of_char c :: nat) \<le> 126
             \<and> c \<noteq> CHR 0x22 \<and> c \<noteq> CHR 0x5C"
  shows "json_string s = CHR 0x22 # s @ [CHR 0x22]"
proof -
  have "concat (map escape_char s) = s"
    using assms by (induction s) (simp_all add: escape_char_plain)
  then show ?thesis by (simp add: json_string_def)
qed

text \<open>
  Claim C8. A run writes its result exactly once, to the file named by the input path
  with its extension replaced by \<open>.json\<close>, whatever that file held before. The content
  is the JSON array of the explanations in slide order: \<open>[]\<close> when there is none,
  otherwise one quoted and escaped string per line behind four spaces, with commas
  between them, inside brackets on lines of their own. A second run on the same input
  path writes the same file again.
\<close>

theorem output_written_once:
  assumes "raises_exceptions_only cl" and "load file_path = Inr ppt"
  shows "(\<exists>res w1 w'. process_presentation load cl file_path w = (Inr res, w1)
            \<and> length res = length (all_texts ppt)
            \<and> main load cl file_path w = (Inr (), w')
            \<and> writes_of (trace w')
                = writes_of (trace w) @ [(fst (splitext file_path) @ ''.json'', json_dump res)]
            \<and> files w' = (files w)(fst (splitext file_path) @ ''.json'' \<mapsto> json_dump res)
            \<and> (\<forall>cl2 load2 ppt2. raises_exceptions_only cl2 \<and> load2 file_path = Inr ppt2 \<longrightarrow>
                  (\<exists>res2 w2 w''. process_presentation load2 cl2 file_path w' = (Inr res2, w2)
                     \<and> main load2 cl2 file_path w' = (Inr (), w'')
                     \<and> writes_of (trace w'')
                         = writes_of (trace w)
                           @ [(fst (splitext file_path) @ ''.json'', json_dump res),
                              (fst (splitext file_path) @ ''.json'', json_dump res2)]
                     \<and> files w'' = (files w)(fst (splitext file_path) @ ''.json'' \<mapsto> json_dump res2))))
       \<and> json_dump [] = ''[]''
       \<and> (\<forall>x xs. json_dump (x # xs)
              = ''['' @ CHR 0x0A # ''    '' @ json_string x
                @ concat (map (\<lambda>s. '','' @ CHR 0x0A # ''    '' @ json_string s) xs)
                @ [CHR 0x0A] @ '']'')
       \<and> (\<forall>s. json_string s = CHR 0x22 # concat (map escape_char s) @ [CHR 0x22])
       \<and> escape_char (CHR 0x22) = [CHR 0x5C, CHR 0x22]
       \<and> escape_char (CHR 0x5C) = [CHR 0x5C, CHR 0x5C]
       \<and> escape_char (CHR 0x0A) = [CHR 0x5C, CHR ''n'']
       \<and> escape_char (CHR 0xE9) = CHR 0x5C # ''u00e9''
       \<and> (\<forall>s. (\<forall>c \<in> set s. 32 \<le> (of_char c :: nat) \<and> (of_char c :: nat) \<le> 126
                       \<and> c \<noteq> CHR 0x22 \<and> c \<noteq> CHR 0x5C) \<longrightarrow>
              json_string s = CHR 0x22 # s @ [CHR 0x22])
       \<and> (\<forall>stem ext. stem \<noteq> [] \<and> last stem \<noteq> CHR ''.'' \<and> last stem \<noteq> CHR ''/''
                \<and> CHR ''.'' \<notin> set ext \<and> CHR ''/'' \<notin> set ext \<longrightarrow>
              fst (splitext (stem @ ''.'' @ ext)) @ ''.json'' = stem @ ''.json'')"
proof -
  let ?out = "fst (splitext file_path) @ ''.json''"
  have out: "output_file file_path = ?out"
    by (simp add: output_file_def)
  from main_runs[where load = load and file_path = file_path and w = w, OF assms]
  obtain res w1 where
    p: "process_presentation load cl file_path w = (Inr res, w1)"
    and len: "length res = length (all_texts ppt)"
    and fl: "files w1 = files w"
    and wr: "writes_of (trace w1) = writes_of (trace w)"
    and m: "main load cl file_path w
               = (Inr (),
                  w1\<lparr>trace := trace w1
                        @ [Log INFO (''Saving explanations to '' @ output_file file_path),
                           Write (output_file file_path) (json_dump res),
                           Log INFO (''Explanations saved to '' @ output_file file_path)],
                      files := (files w1)(output_file file_path \<mapsto> json_dump res)\<rparr>)"
    by blast
  let ?w' = "w1\<lparr>trace := trace w1
                        @ [Log INFO (''Saving explanations to '' @ output_file file_path),
                           Write (output_file file_path) (json_dump res),
                           Log INFO (''Explanations saved to '' @ output_file file_path)],
                      files := (files w1)(output_file file_path \<mapsto> json_dump res)\<rparr>"
  have wr': "writes_of (trace ?w') = writes_of (trace w) @ [(?out, json_dump res)]"
    using wr by (simp add: writes_of_append out)
  have fl': "files ?w' = (files w)(?out \<mapsto> json_dump res)"
    using fl by (simp add: out)
  have again: "\<exists>res2 w2 w''. process_presentation load2 cl2 file_path ?w' = (Inr res2, w2)
                     \<and> main load2 cl2 file_path ?w' = (Inr (), w'')
                     \<and> writes_of (trace w'')
                         = writes_of (trace w) @ [(?out, json_dump res), (?out, json_dump res2)]
                     \<and> files w'' = (files w)(?out \<mapsto> json_dump res2)"
    if c2: "raises_exceptions_only cl2" and l2: "load2 file_path = Inr ppt2"
    for cl2 :: "'a client" and load2 ppt2
  proof -
    from main_runs[where load = load2 and file_path = file_path and w = ?w', OF c2 l2]
    obtain res2 w2 where
      p2: "process_presentation load2 cl2 file_path ?w' = (Inr res2, w2)"
      and fl2: "files w2 = files ?w'"
      and wr2: "writes_of (trace w2) = writes_of (trace ?w')"
      and m2: "main load2 cl2 file_path ?w'
               = (Inr (),
                  w2\<lparr>trace := trace w2
                        @ [Log INFO (''Saving explanations to '' @ output_file file_path),
                           Write (output_file file_path) (json_dump res2),
                           Log INFO (''Explanations saved to '' @ output_file file_path)],
                      files := (files w2)(output_file file_path \<mapsto> json_dump res2)\<rparr>)"
      by blast
    let ?w'' = "w2\<lparr>trace := trace w2
                        @ [Log INFO (''Saving explanations to '' @ output_file file_path),
                           Write (output_file file_path) (json_dump res2),
                           Log INFO (''Explanations saved to '' @ output_file file_path)],
                      files := (files w2)(output_file file_path \<mapsto> json_dump res2)\<rparr>"
    have a: "writes_of (trace ?w'')
               = writes_of (trace w) @ [(?out, json_dump res), (?out, json_dump res2)]"
      using wr2 wr' by (simp add: writes_of_append out)
    have b: "files ?w'' = (files w)(?out \<mapsto> json_dump res2)"
      using fl2 fl' by (simp add: out)
    show ?thesis
      using p2 m2 a b by blast
  qed
  have first: "\<exists>res w1 w'. process_presentation load cl file_path w = (Inr res, w1)
            \<and> length res = length (all_texts ppt)
            \<and> main load cl file_path w = (Inr (), w')
            \<and> writes_of (trace w') = writes_of (trace w) @ [(?out, json_dump res)]
            \<and> files w' = (files w)(?out \<mapsto> json_dump res)
            \<and> (\<forall>cl2 load2 ppt2. raises_exceptions_only cl2 \<and> load2 file_path = Inr ppt2 \<longrightarrow>
                  (\<exists>res2 w2 w''. process_presentation load2 cl2 file_path w' = (Inr res2, w2)
                     \<and> main load2 cl2 file_path w' = (Inr (), w'')
                     \<and> writes_of (trace w'')
                         = writes_of (trace w) @ [(?out, json_dump res), (?out, json_dump res2)]
                     \<and> files w'' = (files w)(?out \<mapsto> json_dump res2)))"
    using p len m wr' fl' again by blast
  have empty: "json_dump [] = ''[]''"
    by (rule json_dump_empty)
  have layout: "\<forall>x xs. json_dump (x # xs)
              = ''['' @ CHR 0x0A # ''    '' @ json_string x
                @ concat (map (\<lambda>s. '','' @ CHR 0x0A # ''    '' @ json_string s) xs)
                @ [CHR 0x0A] @ '']''"
    using json_dump_layout by blast
  have quoted: "\<forall>s. json_string s = CHR 0x22 # concat (map escape_char s) @ [CHR 0x22]"
    by (simp add: json_string_def)
  have plain: "\<forall>s. (\<forall>c \<in> set s. 32 \<le> (of_char c :: nat) \<and> (of_char c :: nat) \<le> 126
                       \<and> c \<noteq> CHR 0x22 \<and> c \<noteq> CHR 0x5C) \<longrightarrow>
              json_string s = CHR 0x22 # s @ [CHR 0x22]"
    using json_string_plain by blast
  have stem: "\<forall>stem ext. stem \<noteq> [] \<and> last stem \<noteq> CHR ''.'' \<and> last stem \<noteq> CHR ''/''
                \<and> CHR ''.'' \<notin> set ext \<and> CHR ''/'' \<notin> set ext \<longrightarrow>
              fst (splitext (stem @ ''.'' @ ext)) @ ''.json'' = stem @ ''.json''"
    using splitext_stem by simp
  have e1: "escape_char (CHR 0x22) = [CHR 0x5C, CHR 0x22]"
    by (simp add: escape_char_def)
  have e2: "escape_char (CHR 0x5C) = [CHR 0x5C, CHR 0x5C]"
    by (simp add: escape_char_def)
  have e3: "escape_char (CHR 0x0A) = [CHR 0x5C, CHR ''n'']"
    by (simp add: escape_char_def)
  have e4: "escape_char (CHR 0xE9) = CHR 0x5C # ''u00e9''"
    by (simp add: escape_char_def hex_digit_def)
  show ?thesis
    by (intro conjI)
       (rule first, rule empty, rule layout, rule quoted, rule e1, rule e2, rule e3, rule e4,
        rule plain, rule stem)
qed

theorem output_written_once_witness:
  "(\<exists>res w'. main load_four always_succeeds ''d/deck.pptx'' world0 = (Inr (), w')
       \<and> length res = 4
       \<and> writes_of (trace w') = [(''d/deck.json'', json_dump res)]
       \<and> files w' ''d/deck.json'' = Some (json_dump res))
   \<and> json_dump [''Lists'', ''Sets'']
       = ''['' @ CHR 0x0A # ''    '' @ CHR 0x22 # ''Lists'' @ CHR 0x22 # '','' @ CHR 0x0A # ''    ''
         @ CHR 0x22 # ''Sets'' @ [CHR 0x22, CHR 0x0A] @ '']''"
proof -
  have h2: "load_four ''d/deck.pptx'' = Inr four_slides"
    by (simp add: load_four_def)
  note th = output_written_once[where load = load_four and file_path = "''d/deck.pptx''"
      and w = world0, OF always_succeeds_ok h2]
  note run = th[THEN conjunct1]
  note layout = th[THEN conjunct2, THEN conjunct2, THEN conjunct1, rule_format]
  note plain = th[THEN conjunct2, THEN conjunct2, THEN conjunct2, THEN conjunct2, THEN conjunct2,
      THEN conjunct2, THEN conjunct2, THEN conjunct2, THEN conjunct1, rule_format]
  note stem = th[THEN conjunct2, THEN conjunct2, THEN conjunct2, THEN conjunct2, THEN conjunct2,
      THEN conjunct2, THEN conjunct2, THEN conjunct2, THEN conjunct2, rule_format]
  have "fst (splitext (''d/deck'' @ ''.'' @ ''pptx'')) @ ''.json'' = ''d/deck'' @ ''.json''"
    by (rule stem) simp
  then have out: "fst (splitext ''d/deck.pptx'') @ ''.json'' = ''d/deck.json''"
    by simp
  have l: "length (all_texts four_slides) = 4"
    by (simp add: all_texts_four_slides)
  have t: "writes_of (trace world0) = []"
    by (simp add: world0_def)
  from run obtain res w1 w' where
    len: "length res = length (all_texts four_slides)"
    and m: "main load_four always_succeeds ''d/deck.pptx'' world0 = (Inr (), w')"
    and wr: "writes_of (trace w')
               = writes_of (trace world0)
                 @ [(fst (splitext ''d/deck.pptx'') @ ''.json'', json_dump res)]"
    and fl: "files w'
               = (files world0)(fst (splitext ''d/deck.pptx'') @ ''.json'' \<mapsto> json_dump res)"
    by blast
  have wr': "writes_of (trace w') = [(''d/deck.json'', json_dump res)]"
    using wr t by (simp only: out) simp
  have fl': "files w' ''d/deck.json'' = Some (json_dump res)"
    using fl by (simp only: out) simp
  have first: "\<exists>res w'. main load_four always_succeeds ''d/deck.pptx'' world0 = (Inr (), w')
       \<and> length res = 4
       \<and> writes_of (trace w') = [(''d/deck.json'', json_dump res)]
       \<and> files w' ''d/deck.json'' = Some (json_dump res)"
    using m len l wr' fl' by (intro exI[of _ res] exI[of _ w']) simp
  have q1: "json_string ''Lists'' = CHR 0x22 # ''Lists'' @ [CHR 0x22]"
    by (rule plain) auto
  have q2: "json_string ''Sets'' = CHR 0x22 # ''Sets'' @ [CHR 0x22]"
    by (rule plain) auto
  have second: "json_dump [''Lists'', ''Sets'']
       = ''['' @ CHR 0x0A # ''    '' @ CHR 0x22 # ''Lists'' @ CHR 0x22 # '','' @ CHR 0x0A # ''    ''
         @ CHR 0x22 # ''Sets'' @ [CHR 0x22, CHR 0x0A] @ '']''"
    by (simp add: layout q1 q2)
  show ?thesis
    using first second by (rule conjI)
qed

end
